theory Spec2Isabelle
  imports Complex_Main "HOL-Library.Word" "HOL-Library.Multiset"
begin

section \<open>Strings of the runtime\<close>

text \<open>
  A string of the program is a sequence of 16-bit code units. \<open>js\<close> turns a literal of
  the theory into such a string, one code unit for each (Latin-1) character.
\<close>

type_synonym jschar = "16 word"
type_synonym jsstring = "jschar list"

definition js :: "string \<Rightarrow> jsstring" where
  "js s = map of_char s"

text \<open>
  The code units that \<open>\s\<close> in a pattern and \<open>String.prototype.trim\<close> treat as white
  space: the WhiteSpace and LineTerminator productions of the language.
\<close>

definition isWhiteSpace :: "jschar \<Rightarrow> bool" where
  "isWhiteSpace c \<longleftrightarrow>
     (0x09 \<le> c \<and> c \<le> 0x0D) \<or> c = 0x20 \<or> c = 0xA0 \<or> c = 0x1680 \<or>
     (0x2000 \<le> c \<and> c \<le> 0x200A) \<or> c = 0x2028 \<or> c = 0x2029 \<or> c = 0x202F \<or>
     c = 0x205F \<or> c = 0x3000 \<or> c = 0xFEFF"

definition SP :: jschar where
  "SP = 0x20"

definition LF :: jschar where
  "LF = 0x0A"

definition FULLSTOP :: jschar where
  "FULLSTOP = 0x2E"

text \<open>The class \<open>[.!?]\<close> and the class \<open>[A-Z]\<close> of the splitter's patterns.\<close>

definition isSentenceEnd :: "jschar \<Rightarrow> bool" where
  "isSentenceEnd c \<longleftrightarrow> c = 0x2E \<or> c = 0x21 \<or> c = 0x3F"

definition isUpperAZ :: "jschar \<Rightarrow> bool" where
  "isUpperAZ c \<longleftrightarrow> 0x41 \<le> c \<and> c \<le> 0x5A"

definition trim :: "jsstring \<Rightarrow> jsstring" where
  "trim s = rev (dropWhile isWhiteSpace (rev (dropWhile isWhiteSpace s)))"

section \<open>Numbers of the runtime\<close>

text \<open>
  A number of the program is a double: a finite value, one of the two infinities, or
  NaN. The finite values are taken from the reals, of which the doubles are a part; a
  length or a count is far below \<open>2^53\<close> and is a double exactly. The relational
  operators follow the language: a comparison with NaN is false, and \<open>a >= b\<close> is the
  negation of \<open>a < b\<close> where neither is NaN. \<open>Math.min\<close> is NaN as soon as one
  argument is.
\<close>

datatype jsnumber = Num real | PosInf | NegInf | NaN

fun jsLess :: "jsnumber \<Rightarrow> jsnumber \<Rightarrow> bool" where
  "jsLess NaN b = False"
| "jsLess a NaN = False"
| "jsLess (Num x) (Num y) = (x < y)"
| "jsLess (Num x) PosInf = True"
| "jsLess (Num x) NegInf = False"
| "jsLess PosInf b = False"
| "jsLess NegInf NegInf = False"
| "jsLess NegInf b = True"

definition jsGreater :: "jsnumber \<Rightarrow> jsnumber \<Rightarrow> bool" where
  "jsGreater a b = jsLess b a"

definition jsGreaterEq :: "jsnumber \<Rightarrow> jsnumber \<Rightarrow> bool" where
  "jsGreaterEq a b \<longleftrightarrow> a \<noteq> NaN \<and> b \<noteq> NaN \<and> \<not> jsLess a b"

definition jsLessEq :: "jsnumber \<Rightarrow> jsnumber \<Rightarrow> bool" where
  "jsLessEq a b \<longleftrightarrow> a \<noteq> NaN \<and> b \<noteq> NaN \<and> \<not> jsLess b a"

definition jsMin :: "jsnumber \<Rightarrow> jsnumber \<Rightarrow> jsnumber" where
  "jsMin a b = (if a = NaN \<or> b = NaN then NaN else if jsLess b a then b else a)"

text \<open>A length or a count, as a number.\<close>

definition numOf :: "nat \<Rightarrow> jsnumber" where
  "numOf n = Num (real n)"

text \<open>
  A field of an object that holds a value or \<open>undefined\<close>. Where such a field stands
  in a comparison or under \<open>Math.min\<close> the language converts it to a number, and
  \<open>undefined\<close> to NaN.
\<close>

datatype 'a present = Undefined | Value 'a

fun toNumber :: "jsnumber present \<Rightarrow> jsnumber" where
  "toNumber Undefined = NaN"
| "toNumber (Value n) = n"

section \<open>Regular expressions of the runtime\<close>

text \<open>
  Every pattern of the program is kept as a syntax tree and run by one matcher that
  follows the backtracking order of the language: the matcher returns every way to
  match, best first, and the head of the list is the match the runtime finds.

  The patterns are matched without the \<open>u\<close> flag, one code unit at a time. With the
  \<open>i\<close> flag two code units match when they canonicalize to the same unit. The
  canonical form of \<open>a\<close>..\<open>z\<close> is the upper-case letter; a code unit from 128 on never
  canonicalizes to one below 128, and no code unit canonicalizes to a quotation mark or
  to white space other than itself, so for the classes and literals of this program it
  is enough to compare a letter of \<open>A\<close>..\<open>Z\<close>, \<open>a\<close>..\<open>z\<close> in both of its cases.
\<close>

definition toUpperAscii :: "jschar \<Rightarrow> jschar" where
  "toUpperAscii c = (if 0x61 \<le> c \<and> c \<le> 0x7A then c - 0x20 else c)"

definition toLowerAscii :: "jschar \<Rightarrow> jschar" where
  "toLowerAscii c = (if 0x41 \<le> c \<and> c \<le> 0x5A then c + 0x20 else c)"

definition unitMatches :: "bool \<Rightarrow> (jschar \<Rightarrow> bool) \<Rightarrow> jschar \<Rightarrow> bool" where
  "unitMatches ignoreCase P ch =
     (if ignoreCase then P ch \<or> P (toUpperAscii ch) \<or> P (toLowerAscii ch) else P ch)"

datatype regex =
    Eps
  | Chr jschar
  | Cls "jschar \<Rightarrow> bool"
  | Seq regex regex
  | Alt regex regex
  | Star bool regex
  | Group nat regex
  | Ahead regex
  | Behind "jschar \<Rightarrow> bool"
  | Eoi

text \<open>
  \<open>Star True r\<close> is the greedy \<open>r*\<close>, \<open>Star False r\<close> the lazy \<open>r*?\<close>; \<open>Group n r\<close>
  is the \<open>n\<close>-th capturing group; \<open>Ahead r\<close> is \<open>(?=r)\<close>; \<open>Behind P\<close> is the
  look-behind \<open>(?<=[...])\<close> on one class; \<open>Eoi\<close> is \<open>$\<close> without the \<open>m\<close> flag.
\<close>

definition Plus :: "bool \<Rightarrow> regex \<Rightarrow> regex" where
  "Plus greedy r = Seq r (Star greedy r)"

definition Opt :: "regex \<Rightarrow> regex" where
  "Opt r = Alt r Eps"

fun lit :: "string \<Rightarrow> regex" where
  "lit [] = Eps"
| "lit [c] = Chr (of_char c)"
| "lit (c # cs) = Seq (Chr (of_char c)) (lit cs)"

text \<open>\<open>\s\<close> and \<open>[\s\S]\<close>.\<close>

definition reSpace :: regex where
  "reSpace = Cls isWhiteSpace"

definition reAny :: regex where
  "reAny = Cls (\<lambda>c. True)"

text \<open>
  A state of the matcher: the input before the position (reversed), the input from the
  position on, and the captures so far (the latest first).
\<close>

datatype mstate = MState (consumed: jsstring) (remaining: jsstring) (groups: "(nat \<times> jsstring) list")

text \<open>
  An iteration of a star that consumes nothing is rejected, as the language says; the
  patterns of this program have no group inside a look-ahead or under a star.
\<close>

function (sequential) matchRe :: "bool \<Rightarrow> regex \<Rightarrow> mstate \<Rightarrow> mstate list" where
  "matchRe ic Eps st = [st]"
| "matchRe ic (Chr c) st =
     (case remaining st of
        [] \<Rightarrow> []
      | ch # rest \<Rightarrow>
          if unitMatches ic (\<lambda>x. x = c) ch then [MState (ch # consumed st) rest (groups st)]
          else [])"
| "matchRe ic (Cls P) st =
     (case remaining st of
        [] \<Rightarrow> []
      | ch # rest \<Rightarrow>
          if unitMatches ic P ch then [MState (ch # consumed st) rest (groups st)] else [])"
| "matchRe ic (Seq r1 r2) st = concat (map (matchRe ic r2) (matchRe ic r1 st))"
| "matchRe ic (Alt r1 r2) st = matchRe ic r1 st @ matchRe ic r2 st"
| "matchRe ic (Star greedy r) st =
     (let more =
        concat (map (\<lambda>st'. if length (remaining st') < length (remaining st)
                            then matchRe ic (Star greedy r) st' else [])
                    (matchRe ic r st))
      in if greedy then more @ [st] else st # more)"
| "matchRe ic (Group n r) st =
     map (\<lambda>st'. MState (consumed st') (remaining st')
                  ((n, take (length (remaining st) - length (remaining st')) (remaining st))
                   # groups st'))
         (matchRe ic r st)"
| "matchRe ic (Ahead r) st = (if matchRe ic r st = [] then [] else [st])"
| "matchRe ic (Behind P) st =
     (case consumed st of [] \<Rightarrow> [] | p # _ \<Rightarrow> if P p then [st] else [])"
| "matchRe ic Eoi st = (if remaining st = [] then [st] else [])"
  by pat_completeness auto
termination
  by (relation "inv_image (less_than <*lex*> less_than)
                  (\<lambda>(ic, r, st). (size r, length (remaining st)))") auto

text \<open>The result of a match: the matched text (index 0) and the captures.\<close>

record rmatch =
  matched :: jsstring
  captures :: "(nat \<times> jsstring) list"

definition capture :: "nat \<Rightarrow> rmatch \<Rightarrow> jsstring option" where
  "capture n m = map_of (captures m) n"

definition matchAt :: "bool \<Rightarrow> regex \<Rightarrow> jsstring \<Rightarrow> jsstring \<Rightarrow> mstate option" where
  "matchAt ic r pre suf =
     (case matchRe ic r (MState pre suf []) of [] \<Rightarrow> None | st # _ \<Rightarrow> Some st)"

definition matchedText :: "jsstring \<Rightarrow> mstate \<Rightarrow> jsstring" where
  "matchedText suf st = take (length suf - length (remaining st)) suf"

text \<open>
  \<open>RegExp.prototype.exec\<close> without the \<open>g\<close> flag, behind \<open>String.prototype.match\<close> and
  \<open>test\<close>: the first position from the left where the pattern matches.
\<close>

fun execFrom :: "bool \<Rightarrow> regex \<Rightarrow> jsstring \<Rightarrow> jsstring \<Rightarrow> rmatch option" where
  "execFrom ic r pre [] =
     (case matchAt ic r pre [] of
        None \<Rightarrow> None
      | Some st \<Rightarrow> Some \<lparr>matched = [], captures = groups st\<rparr>)"
| "execFrom ic r pre (c # cs) =
     (case matchAt ic r pre (c # cs) of
        None \<Rightarrow> execFrom ic r (c # pre) cs
      | Some st \<Rightarrow> Some \<lparr>matched = matchedText (c # cs) st, captures = groups st\<rparr>)"

definition jsMatch :: "bool \<Rightarrow> regex \<Rightarrow> jsstring \<Rightarrow> rmatch option" where
  "jsMatch ic r s = execFrom ic r [] s"

definition jsTest :: "bool \<Rightarrow> regex \<Rightarrow> jsstring \<Rightarrow> bool" where
  "jsTest ic r s \<longleftrightarrow> jsMatch ic r s \<noteq> None"

text \<open>
  A replacement string: literal text and the references \<open>$1\<close>, \<open>$2\<close>, ... to the
  captures; a reference to a group that took no part in the match is the empty string.
\<close>

datatype replItem = Lit jsstring | Ref nat

fun expandRepl :: "replItem list \<Rightarrow> (nat \<times> jsstring) list \<Rightarrow> jsstring" where
  "expandRepl [] g = []"
| "expandRepl (Lit s # items) g = s @ expandRepl items g"
| "expandRepl (Ref n # items) g =
     (case map_of g n of None \<Rightarrow> [] | Some s \<Rightarrow> s) @ expandRepl items g"

text \<open>\<open>replace\<close> with a pattern without the \<open>g\<close> flag: the first match is replaced.\<close>

fun replaceFirstFrom :: "bool \<Rightarrow> regex \<Rightarrow> replItem list \<Rightarrow> jsstring \<Rightarrow> jsstring \<Rightarrow> jsstring" where
  "replaceFirstFrom ic r repl pre [] =
     (case matchAt ic r pre [] of None \<Rightarrow> [] | Some st \<Rightarrow> expandRepl repl (groups st))"
| "replaceFirstFrom ic r repl pre (c # cs) =
     (case matchAt ic r pre (c # cs) of
        None \<Rightarrow> c # replaceFirstFrom ic r repl (c # pre) cs
      | Some st \<Rightarrow> expandRepl repl (groups st) @ remaining st)"

text \<open>
  \<open>replace\<close> with the \<open>g\<close> flag: every match from the left, the search going on after
  each match, and one code unit further after an empty match.
\<close>

function replaceAllFrom :: "bool \<Rightarrow> regex \<Rightarrow> replItem list \<Rightarrow> jsstring \<Rightarrow> jsstring \<Rightarrow> jsstring" where
  "replaceAllFrom ic r repl pre [] =
     (case matchAt ic r pre [] of None \<Rightarrow> [] | Some st \<Rightarrow> expandRepl repl (groups st))"
| "replaceAllFrom ic r repl pre (c # cs) =
     (case matchAt ic r pre (c # cs) of
        None \<Rightarrow> c # replaceAllFrom ic r repl (c # pre) cs
      | Some st \<Rightarrow>
          if length (remaining st) < length (c # cs)
          then expandRepl repl (groups st) @ replaceAllFrom ic r repl (consumed st) (remaining st)
          else expandRepl repl (groups st) @ c # replaceAllFrom ic r repl (c # pre) cs)"
  by pat_completeness auto
termination
  by (relation "measure (\<lambda>(ic, r, repl, pre, suf). length suf)") auto

text \<open>\<open>match\<close> with the \<open>g\<close> flag: the texts of all matches from the left.\<close>

function matchAllFrom :: "bool \<Rightarrow> regex \<Rightarrow> jsstring \<Rightarrow> jsstring \<Rightarrow> jsstring list" where
  "matchAllFrom ic r pre [] =
     (case matchAt ic r pre [] of None \<Rightarrow> [] | Some st \<Rightarrow> [[]])"
| "matchAllFrom ic r pre (c # cs) =
     (case matchAt ic r pre (c # cs) of
        None \<Rightarrow> matchAllFrom ic r (c # pre) cs
      | Some st \<Rightarrow>
          if length (remaining st) < length (c # cs)
          then matchedText (c # cs) st # matchAllFrom ic r (consumed st) (remaining st)
          else [] # matchAllFrom ic r (c # pre) cs)"
  by pat_completeness auto
termination
  by (relation "measure (\<lambda>(ic, r, pre, suf). length suf)") auto

text \<open>
  \<open>split\<close> with a pattern that has no capturing group. The second argument is the
  current piece, reversed. The pattern is tried at each position before the end; a
  match that is empty at the start of the piece is skipped.
\<close>

function splitFrom :: "bool \<Rightarrow> regex \<Rightarrow> jsstring \<Rightarrow> jsstring \<Rightarrow> jsstring \<Rightarrow> jsstring list" where
  "splitFrom ic r piece pre [] = [rev piece]"
| "splitFrom ic r piece pre (c # cs) =
     (case matchAt ic r pre (c # cs) of
        None \<Rightarrow> splitFrom ic r (c # piece) (c # pre) cs
      | Some st \<Rightarrow>
          if length (remaining st) < length (c # cs)
          then rev piece # splitFrom ic r [] (consumed st) (remaining st)
          else if piece = [] then splitFrom ic r [c] (c # pre) cs
          else rev piece # splitFrom ic r [c] (c # pre) cs)"
  by pat_completeness auto
termination
  by (relation "measure (\<lambda>(ic, r, piece, pre, suf). length suf)") auto

definition jsSplit :: "bool \<Rightarrow> regex \<Rightarrow> jsstring \<Rightarrow> jsstring list" where
  "jsSplit ic r s =
     (if s = [] then (if matchAt ic r [] [] = None then [[]] else [])
      else splitFrom ic r [] [] s)"

text \<open>\<open>includes\<close>, and \<open>replace\<close> with a string for a pattern and the empty replacement.\<close>

fun jsIncludes :: "jsstring \<Rightarrow> jsstring \<Rightarrow> bool" where
  "jsIncludes [] pat = (pat = [])"
| "jsIncludes (c # cs) pat = (take (length pat) (c # cs) = pat \<or> jsIncludes cs pat)"

fun removeFirst :: "jsstring \<Rightarrow> jsstring \<Rightarrow> jsstring" where
  "removeFirst pat [] = []"
| "removeFirst pat (c # cs) =
     (if take (length pat) (c # cs) = pat then drop (length pat) (c # cs)
      else c # removeFirst pat cs)"

section \<open>The text splitter (src/utils/textSplitter.ts)\<close>

subsection \<open>Options\<close>

text \<open>
  \<open>TextSplitterOptions\<close> as the merged object holds it. The interface declares two
  numbers and a boolean, but the merged object takes what the caller's partial object
  holds: any number, NaN included, or \<open>undefined\<close>.
\<close>

record TextSplitterOptions =
  maxCharacters :: "jsnumber present"
  respectSentenceBoundaries :: "bool present"
  minWordsPerSlide :: "jsnumber present"

text \<open>
  \<open>Partial<TextSplitterOptions>\<close>: a key that is absent is \<open>None\<close>; a key that is
  present holds a value or \<open>undefined\<close>.
\<close>

record PartialTextSplitterOptions =
  maxCharactersOpt :: "jsnumber present option"
  respectSentenceBoundariesOpt :: "bool present option"
  minWordsPerSlideOpt :: "jsnumber present option"

definition DEFAULT_OPTIONS :: TextSplitterOptions where
  "DEFAULT_OPTIONS =
     \<lparr>maxCharacters = Value (Num 130), respectSentenceBoundaries = Value True,
      minWordsPerSlide = Value (Num 3)\<rparr>"

text \<open>
  The object spread \<open>{ ...DEFAULT_OPTIONS, ...options }\<close>: every key present in
  \<open>options\<close> replaces the default, also when it holds \<open>undefined\<close>.
\<close>

definition mergeOptions :: "TextSplitterOptions \<Rightarrow> PartialTextSplitterOptions \<Rightarrow> TextSplitterOptions" where
  "mergeOptions d p =
     \<lparr>maxCharacters = (case maxCharactersOpt p of None \<Rightarrow> maxCharacters d | Some v \<Rightarrow> v),
      respectSentenceBoundaries =
        (case respectSentenceBoundariesOpt p of None \<Rightarrow> respectSentenceBoundaries d | Some v \<Rightarrow> v),
      minWordsPerSlide = (case minWordsPerSlideOpt p of None \<Rightarrow> minWordsPerSlide d | Some v \<Rightarrow> v)\<rparr>"

subsection \<open>The patterns\<close>

text \<open>
  \<open>/\s+/\<close>, \<open>/([.!?])\s*([A-Z])/\<close>, \<open>/(?<=[.!?])\s+/\<close> and \<open>/[.!?]$/\<close>. None has
  the \<open>i\<close> flag.
\<close>

definition reSpaces :: regex where
  "reSpaces = Plus True reSpace"

definition reSentenceBreak :: regex where
  "reSentenceBreak =
     Seq (Group 1 (Cls isSentenceEnd)) (Seq (Star True reSpace) (Group 2 (Cls isUpperAZ)))"

definition reSentenceGap :: regex where
  "reSentenceGap = Seq (Behind isSentenceEnd) (Plus True reSpace)"

definition reEndsSentence :: regex where
  "reEndsSentence = Seq (Cls isSentenceEnd) Eoi"

text \<open>\<open>split(' ')\<close>: the pieces between single spaces; two spaces in a row give an empty piece.\<close>

fun splitSpace :: "jsstring \<Rightarrow> jsstring \<Rightarrow> jsstring list" where
  "splitSpace acc [] = [rev acc]"
| "splitSpace acc (c # cs) =
     (if c = SP then rev acc # splitSpace [] cs else splitSpace (c # acc) cs)"

subsection \<open>getWordCount\<close>

definition getWordCount :: "jsstring \<Rightarrow> nat" where
  "getWordCount text =
     length (filter (\<lambda>word. length word > 0) (jsSplit False reSpaces (trim text)))"

subsection \<open>splitLongSentence\<close>

text \<open>
  The state of both loops is the pair of the slides pushed so far and the current
  slide. An empty string is falsy, so the test \<open>currentSlide && ...\<close> is
  \<open>currentSlide \<noteq> []\<close>.
\<close>

definition wordStep :: "jsnumber present \<Rightarrow> jsnumber present \<Rightarrow> jsstring list \<times> jsstring \<Rightarrow> jsstring \<Rightarrow> jsstring list \<times> jsstring" where
  "wordStep maxChars minWords st word =
     (case st of (slides, currentSlide) \<Rightarrow>
        if currentSlide \<noteq> [] \<and> jsGreater (numOf (length (currentSlide @ SP # word))) (toNumber maxChars) then
          if jsGreaterEq (numOf (getWordCount currentSlide)) (toNumber minWords)
          then (slides @ [trim currentSlide], word)
          else (slides, trim (currentSlide @ SP # word))
        else (slides, if currentSlide \<noteq> [] then currentSlide @ SP # word else word))"

fun wordLoop :: "jsnumber present \<Rightarrow> jsnumber present \<Rightarrow> jsstring list \<Rightarrow> jsstring list \<times> jsstring \<Rightarrow> jsstring list \<times> jsstring" where
  "wordLoop maxChars minWords [] st = st"
| "wordLoop maxChars minWords (word # ws) st =
     wordLoop maxChars minWords ws (wordStep maxChars minWords st word)"

text \<open>The result \<open>{ slides, remainder }\<close> is the pair \<open>(slides, remainder)\<close>.\<close>

definition splitLongSentence :: "jsstring \<Rightarrow> jsnumber present \<Rightarrow> jsnumber present \<Rightarrow> jsstring list \<times> jsstring" where
  "splitLongSentence sentence maxChars minWords =
     wordLoop maxChars minWords (splitSpace [] sentence) ([], [])"

subsection \<open>postProcessSlides\<close>

text \<open>The last \<open>map\<close> of the chain: a full stop after a slide that has no ending.\<close>

definition ensureEnding :: "jsstring \<Rightarrow> jsstring" where
  "ensureEnding slide =
     (if \<not> jsTest False reEndsSentence slide \<and> length slide > 10 then
        (let ws = splitSpace [] slide in
         if length ws \<ge> 3 then slide @ [FULLSTOP] else slide)
      else slide)"

text \<open>The chain before its last \<open>map\<close>: trim, drop the empty, drop the short.\<close>

definition keptSlides :: "jsstring list \<Rightarrow> TextSplitterOptions \<Rightarrow> jsstring list" where
  "keptSlides slides options =
     filter (\<lambda>slide. jsGreaterEq (numOf (getWordCount slide))
                       (jsMin (toNumber (minWordsPerSlide options)) (Num 1)))
       (filter (\<lambda>slide. length slide > 0) (map trim slides))"

definition postProcessSlides :: "jsstring list \<Rightarrow> TextSplitterOptions \<Rightarrow> jsstring list" where
  "postProcessSlides slides options = map ensureEnding (keptSlides slides options)"

subsection \<open>splitTextIntoSlides\<close>

text \<open>
  The body of the loop over the sentences has two statements: the \<open>if\<close> that adds the
  trimmed sentence to the current slide or pushes the current slide, and the \<open>if\<close>
  that splits a current slide that is too long.
\<close>

definition addSentence :: "TextSplitterOptions \<Rightarrow> jsstring list \<times> jsstring \<Rightarrow> jsstring \<Rightarrow> jsstring list \<times> jsstring" where
  "addSentence opts st trimmedSentence =
     (case st of (slides, currentSlide) \<Rightarrow>
        if currentSlide \<noteq> [] \<and>
           jsGreater (numOf (length (currentSlide @ SP # trimmedSentence)))
             (toNumber (maxCharacters opts)) then
          if jsGreaterEq (numOf (getWordCount currentSlide)) (toNumber (minWordsPerSlide opts))
          then (slides @ [trim currentSlide], trimmedSentence)
          else (slides, trim (currentSlide @ SP # trimmedSentence))
        else (slides,
              if currentSlide \<noteq> [] then currentSlide @ SP # trimmedSentence
              else trimmedSentence))"

definition splitIfLong :: "TextSplitterOptions \<Rightarrow> jsstring list \<times> jsstring \<Rightarrow> jsstring list \<times> jsstring" where
  "splitIfLong opts st =
     (case st of (slides, currentSlide) \<Rightarrow>
        if jsGreater (numOf (length currentSlide)) (toNumber (maxCharacters opts)) then
          (let splitResult =
                 splitLongSentence currentSlide (maxCharacters opts) (minWordsPerSlide opts)
           in (slides @ fst splitResult, snd splitResult))
        else (slides, currentSlide))"

definition sentenceStep :: "TextSplitterOptions \<Rightarrow> jsstring list \<times> jsstring \<Rightarrow> jsstring \<Rightarrow> jsstring list \<times> jsstring" where
  "sentenceStep opts st sentence = splitIfLong opts (addSentence opts st (trim sentence))"

fun sentenceLoop :: "TextSplitterOptions \<Rightarrow> jsstring list \<Rightarrow> jsstring list \<times> jsstring \<Rightarrow> jsstring list \<times> jsstring" where
  "sentenceLoop opts [] st = st"
| "sentenceLoop opts (sentence # rest) st = sentenceLoop opts rest (sentenceStep opts st sentence)"

definition cleanText :: "jsstring \<Rightarrow> jsstring" where
  "cleanText text =
     replaceAllFrom False reSentenceBreak [Ref 1, Lit [LF], Ref 2] []
       (replaceAllFrom False reSpaces [Lit [SP]] [] (trim text))"

definition sentencesOf :: "jsstring \<Rightarrow> jsstring list" where
  "sentencesOf text =
     filter (\<lambda>sentence. length (trim sentence) > 0) (jsSplit False reSentenceGap (cleanText text))"

text \<open>The slides pushed by the loop and by the statement after it.\<close>

definition collectSlides :: "TextSplitterOptions \<Rightarrow> jsstring list \<Rightarrow> jsstring list" where
  "collectSlides opts sentences =
     (case sentenceLoop opts sentences ([], []) of (slides, currentSlide) \<Rightarrow>
        if trim currentSlide \<noteq> [] then slides @ [trim currentSlide] else slides)"

definition splitTextIntoSlides :: "jsstring \<Rightarrow> PartialTextSplitterOptions \<Rightarrow> jsstring list" where
  "splitTextIntoSlides text options =
     (let opts = mergeOptions DEFAULT_OPTIONS options in
      if trim text = [] then []
      else
        let sentences = sentencesOf text in
        if sentences = [] then []
        else postProcessSlides (collectSlides opts sentences) opts)"

subsection \<open>validateTextForSlides\<close>

record TextValidation =
  isValid :: bool
  errors :: "jsstring list"
  warnings :: "jsstring list"

text \<open>
  The two arrays grow by \<open>push\<close> in the order of the statements: the errors for the
  empty text, for the short text and for the word count; the warnings for the long text
  and for the word count.
\<close>

definition validateTextForSlides :: "jsstring \<Rightarrow> TextValidation" where
  "validateTextForSlides input =
     (let wordCount = getWordCount input;
          errs =
            (if trim input = [] then [js ''Text cannot be empty''] else []) @
            (if length input < 10 then [js ''Text is too short (minimum 10 characters)''] else []) @
            (if wordCount < 3 then [js ''Text must contain at least 3 words''] else []);
          warns =
            (if length input > 10000
             then [js ''Text is very long and may generate many slides''] else []) @
            (if wordCount > 2000
             then [js ''Text contains many words and may take time to process''] else [])
      in \<lparr>isValid = (length errs = 0), errors = errs, warnings = warns\<rparr>)"

section \<open>The slide-option validator (slideGenerator.ts, validateSlideOptions)\<close>

text \<open>
  \<open>Partial<SlideGeneratorOptions>\<close>. A number of the program is a real here (no NaN, no
  infinity); the literal \<open>0.1\<close> is the double nearest to one tenth, which lies above it,
  and no double lies between the two, so for every double \<open>q\<close> the test \<open>q < 0.1\<close> of
  the program and the test \<open>q < 1/10\<close> on the reals agree.
\<close>

record PartialSlideGeneratorOptions =
  widthOpt :: "real option"
  heightOpt :: "real option"
  qualityOpt :: "real option"
  formatOpt :: "jsstring option"
  backgroundColorOpt :: "jsstring option"

text \<open>
  The result \<open>{ isValid, errors }\<close>; its fields are \<open>slideIsValid\<close> and \<open>slideErrors\<close>
  here, apart from those of \<open>validateTextForSlides\<close>.
\<close>

record SlideValidation =
  slideIsValid :: bool
  slideErrors :: "jsstring list"

text \<open>
  \<open>options.width && (...)\<close>: the guard is falsy for an absent field and for the number
  0; \<open>options.format && ...\<close> is falsy for an absent field and for the empty string.
\<close>

definition validateSlideOptions :: "PartialSlideGeneratorOptions \<Rightarrow> SlideValidation" where
  \<open>validateSlideOptions options =
     (let errs =
        (case widthOpt options of
           Some w \<Rightarrow>
             if w \<noteq> 0 \<and> (w < 100 \<or> w > 4000)
             then [js ''Width must be between 100 and 4000 pixels''] else []
         | None \<Rightarrow> []) @
        (case heightOpt options of
           Some h \<Rightarrow>
             if h \<noteq> 0 \<and> (h < 100 \<or> h > 4000)
             then [js ''Height must be between 100 and 4000 pixels''] else []
         | None \<Rightarrow> []) @
        (case qualityOpt options of
           Some q \<Rightarrow>
             if q \<noteq> 0 \<and> (q < 1 / 10 \<or> q > 1)
             then [js ''Quality must be between 0.1 and 1''] else []
         | None \<Rightarrow> []) @
        (case formatOpt options of
           Some f \<Rightarrow>
             if f \<noteq> [] \<and> f \<notin> set [js ''png'', js ''jpg'']
             then [js ''Format must be either "png" or "jpg"''] else []
         | None \<Rightarrow> [])
      in \<lparr>slideIsValid = (length errs = 0), slideErrors = errs\<rparr>)\<close>

section \<open>The content analyzer (src/utils/contentAnalyzer.ts)\<close>

record StructuredContent =
  title :: "jsstring option"
  body :: "jsstring option"
  visual :: "jsstring option"
  visualSnippet :: "jsstring option"
  tags :: "jsstring list option"

subsection \<open>The patterns\<close>

text \<open>The classes of the opening and of the closing quotation mark.\<close>

definition reOpenQuote :: regex where
  "reOpenQuote = Cls (\<lambda>c. c = 0x201C \<or> c = 0x22 \<or> c = 0x27)"

definition reCloseQuote :: regex where
  "reCloseQuote = Cls (\<lambda>c. c = 0x201D \<or> c = 0x22 \<or> c = 0x27)"

text \<open>\<open>/<label>:\s*[Q"']?([\s\S]+?)[Q"'](?=\s|$)/i\<close>, Q the curly quotation marks.\<close>

definition reQuoted :: "string \<Rightarrow> regex" where
  "reQuoted label =
     Seq (lit label) (Seq (Star True reSpace) (Seq (Opt reOpenQuote)
       (Seq (Group 1 (Plus False reAny)) (Seq reCloseQuote (Ahead (Alt reSpace Eoi))))))"

text \<open>\<open>/Title:\s*([\s\S]+?)(?=$|\s*Body|\s*Visual)/i\<close>\<close>

definition reTitlePlain :: regex where
  "reTitlePlain =
     Seq (lit ''Title:'') (Seq (Star True reSpace) (Seq (Group 1 (Plus False reAny))
       (Ahead (Alt Eoi (Alt (Seq (Star True reSpace) (lit ''Body''))
                            (Seq (Star True reSpace) (lit ''Visual'')))))))"

text \<open>\<open>/Body:\s*([\s\S]+?)(?=$|\s*Visual)/i\<close>\<close>

definition reBodyPlain :: regex where
  "reBodyPlain =
     Seq (lit ''Body:'') (Seq (Star True reSpace) (Seq (Group 1 (Plus False reAny))
       (Ahead (Alt Eoi (Seq (Star True reSpace) (lit ''Visual''))))))"

text \<open>\<open>/Visual:\s*([\s\S]+)$/i\<close>\<close>

definition reVisualPlain :: regex where
  "reVisualPlain =
     Seq (lit ''Visual:'') (Seq (Star True reSpace) (Seq (Group 1 (Plus True reAny)) Eoi))"

text \<open>The fenced block, three grave accents on each side, and the braced block.\<close>

definition reFenced :: regex where
  "reFenced =
     Seq (Chr 0x60) (Seq (Chr 0x60) (Seq (Chr 0x60) (Seq (Group 1 (Star False reAny))
       (Seq (Chr 0x60) (Seq (Chr 0x60) (Chr 0x60))))))"

definition reBraced :: regex where
  "reBraced = Seq (Chr 0x7B) (Seq (Star True reAny) (Chr 0x7D))"

text \<open>
  \<open>/\r\n|\r/g\<close>, \<open>/\n+/\<close>, \<open>/\n{2,}/g\<close>, \<open>/:\s*$/\<close> and \<open>/#[a-z0-9_]+/gi\<close>; the
  pattern \<open>/(?<=[.!?])\s+/\<close> of the first sentence is \<open>reSentenceGap\<close> of the splitter.
\<close>

definition reLineEnd :: regex where
  "reLineEnd = Alt (Seq (Chr 0x0D) (Chr 0x0A)) (Chr 0x0D)"

definition reLineFeeds :: regex where
  "reLineFeeds = Plus True (Chr 0x0A)"

definition reBlankLines :: regex where
  "reBlankLines = Seq (Chr 0x0A) (Seq (Chr 0x0A) (Star True (Chr 0x0A)))"

definition reColonEnd :: regex where
  "reColonEnd = Seq (Chr 0x3A) (Seq (Star True reSpace) Eoi)"

definition isTagUnit :: "jschar \<Rightarrow> bool" where
  "isTagUnit c \<longleftrightarrow> (0x61 \<le> c \<and> c \<le> 0x7A) \<or> (0x30 \<le> c \<and> c \<le> 0x39) \<or> c = 0x5F"

definition reHashtag :: regex where
  "reHashtag = Seq (Chr 0x23) (Plus True (Cls isTagUnit))"

subsection \<open>normalize and extractLabeled\<close>

definition normalize :: "jsstring \<Rightarrow> jsstring" where
  "normalize input = trim (replaceAllFrom False reLineEnd [Lit [LF]] [] input)"

text \<open>\<open>match?.[1]?.trim()\<close>\<close>

definition trimmedCapture :: "rmatch option \<Rightarrow> jsstring option" where
  "trimmedCapture m =
     (case m of None \<Rightarrow> None
      | Some r \<Rightarrow> (case capture 1 r of None \<Rightarrow> None | Some g \<Rightarrow> Some (trim g)))"

text \<open>\<open>a || b\<close> on two match results: a match is truthy, \<open>null\<close> is not.\<close>

definition orElse :: "rmatch option \<Rightarrow> rmatch option \<Rightarrow> rmatch option" where
  "orElse a b = (case a of None \<Rightarrow> b | Some r \<Rightarrow> Some r)"

text \<open>A string is truthy when it is not empty; \<open>undefined\<close> is falsy.\<close>

definition truthy :: "jsstring option \<Rightarrow> bool" where
  "truthy v \<longleftrightarrow> (case v of None \<Rightarrow> False | Some s \<Rightarrow> s \<noteq> [])"

text \<open>The statement \<open>if (visualRaw) { ... }\<close> that sets \<open>visualSnippet\<close>.\<close>

definition snippetOfVisual :: "jsstring option \<Rightarrow> jsstring option" where
  "snippetOfVisual visualRaw =
     (case visualRaw of
        None \<Rightarrow> None
      | Some raw \<Rightarrow>
          if raw = [] then None
          else
            (case jsMatch False reFenced raw of
               Some fenced \<Rightarrow> map_option trim (capture 1 fenced)
             | None \<Rightarrow>
                 (case jsMatch False reBraced raw of
                    Some braced \<Rightarrow> Some (trim (matched braced))
                  | None \<Rightarrow> None)))"

definition extractLabeled :: "jsstring \<Rightarrow> StructuredContent" where
  "extractLabeled input =
     (let titleMatch = orElse (jsMatch True (reQuoted ''Title:'') input) (jsMatch True reTitlePlain input);
          bodyMatch = orElse (jsMatch True (reQuoted ''Body:'') input) (jsMatch True reBodyPlain input);
          visualMatch = orElse (jsMatch True (reQuoted ''Visual:'') input) (jsMatch True reVisualPlain input);
          visualRaw = trimmedCapture visualMatch
      in \<lparr>title = trimmedCapture titleMatch,
          body = trimmedCapture bodyMatch,
          visual = visualRaw,
          visualSnippet = snippetOfVisual visualRaw,
          tags = None\<rparr>)"

subsection \<open>heuristics\<close>

text \<open>
  \<open>String.prototype.toLowerCase\<close> follows the case tables of Unicode, which are no part
  of the program: the functions below take it as the parameter \<open>lc\<close>.
  \<open>lowerAsciiString\<close> is what it does on a string of code units below 128.
\<close>

definition lowerAsciiString :: "jsstring \<Rightarrow> jsstring" where
  "lowerAsciiString s = map toLowerAscii s"

definition visualKeywords :: "jsstring list" where
  "visualKeywords =
     [js ''api'', js ''endpoint'', js ''response'', js ''json'', js ''payload'', js ''leak'',
      js ''secret'', js ''pii'', js ''ssn'', js ''token'', js ''password'']"

definition detectKeywordsForVisual :: "(jsstring \<Rightarrow> jsstring) \<Rightarrow> jsstring \<Rightarrow> jsstring option" where
  "detectKeywordsForVisual lc input =
     (let lower = lc input;
          found = list_ex (\<lambda>k. jsIncludes lower k) visualKeywords
      in if \<not> found then None
         else Some (js ''API response JSON with red highlights on sensitive fields''))"

text \<open>
  \<open>/["'Q]|[\u{1F300}-\u{1FAFF}]/u.test(line)\<close>, Q the four curly quotation marks. With
  the \<open>u\<close> flag the pattern reads code points: a code point of the range is a high
  surrogate followed by a low one, and two such neighbours always form one code point.
\<close>

definition isQuoteMark :: "jschar \<Rightarrow> bool" where
  "isQuoteMark c \<longleftrightarrow>
     c = 0x22 \<or> c = 0x27 \<or> c = 0x201C \<or> c = 0x201D \<or> c = 0x2018 \<or> c = 0x2019"

definition isEmojiPair :: "jschar \<Rightarrow> jschar \<Rightarrow> bool" where
  "isEmojiPair hi lo \<longleftrightarrow>
     0xD800 \<le> hi \<and> hi \<le> 0xDBFF \<and> 0xDC00 \<le> lo \<and> lo \<le> 0xDFFF \<and>
     (let cp = 0x10000 + (unat hi - 0xD800) * 0x400 + (unat lo - 0xDC00)
      in 0x1F300 \<le> cp \<and> cp \<le> 0x1FAFF)"

fun hasEmojiOrQuotes :: "jsstring \<Rightarrow> bool" where
  "hasEmojiOrQuotes [] = False"
| "hasEmojiOrQuotes [c] = isQuoteMark c"
| "hasEmojiOrQuotes (c # d # cs) =
     (isQuoteMark c \<or> isEmojiPair c d \<or> hasEmojiOrQuotes (d # cs))"

text \<open>The test of the loop over the lines, and the title the loop leaves.\<close>

definition isTitleLine :: "jsstring \<Rightarrow> bool" where
  "isTitleLine line \<longleftrightarrow>
     (let isShort = length line \<le> 80;
          hasEmojiOrQuotes = hasEmojiOrQuotes line;
          endsWithColon = jsTest False reColonEnd line
      in isShort \<and> (hasEmojiOrQuotes \<or> endsWithColon))"

definition titleFromLines :: "jsstring list \<Rightarrow> jsstring option" where
  "titleFromLines lines =
     (case find isTitleLine lines of
        None \<Rightarrow> None
      | Some line \<Rightarrow> Some (replaceFirstFrom False reColonEnd [] [] line))"

text \<open>
  The fallback of the title: the first sentence when it has at most 120 code units;
  otherwise the title stays what the loop left (\<open>undefined\<close> or the empty string).
\<close>

definition titleOf :: "jsstring \<Rightarrow> jsstring list \<Rightarrow> jsstring option" where
  "titleOf normalized lines =
     (let title0 = titleFromLines lines in
      if \<not> truthy title0 then
        (let sentence =
               (case jsSplit False reSentenceGap normalized of
                  [] \<Rightarrow> None
                | first # _ \<Rightarrow> Some (trim first))
         in case sentence of
              None \<Rightarrow> title0
            | Some t \<Rightarrow> if t \<noteq> [] \<and> length t \<le> 120 then Some t else title0)
      else title0)"

text \<open>\<open>Array.from(new Set(xs))\<close>: the first occurrence of each element, in order.\<close>

fun dedupe :: "'a list \<Rightarrow> 'a list \<Rightarrow> 'a list" where
  "dedupe seen [] = []"
| "dedupe seen (x # xs) =
     (if x \<in> set seen then dedupe seen xs else x # dedupe (x # seen) xs)"

definition heuristics :: "(jsstring \<Rightarrow> jsstring) \<Rightarrow> jsstring \<Rightarrow> StructuredContent" where
  "heuristics lc input =
     (let normalized = normalize input;
          lines = filter (\<lambda>l. l \<noteq> []) (map trim (jsSplit False reLineFeeds normalized));
          title1 = titleOf normalized lines;
          fenced = jsMatch False reFenced normalized;
          braced = jsMatch False reBraced normalized;
          visual1 =
            (case fenced of
               Some f \<Rightarrow> Some (js ''Code/JSON snippet detected'')
             | None \<Rightarrow>
                 (case braced of
                    Some b \<Rightarrow> Some (js ''Code/JSON snippet detected'')
                  | None \<Rightarrow> detectKeywordsForVisual lc normalized));
          snippet =
            (case fenced of
               Some f \<Rightarrow> map_option trim (capture 1 f)
             | None \<Rightarrow> (case braced of Some b \<Rightarrow> Some (trim (matched b)) | None \<Rightarrow> None));
          body0 = normalized;
          body1 =
            (case title1 of
               None \<Rightarrow> body0
             | Some t \<Rightarrow> if t \<noteq> [] then trim (removeFirst t body0) else body0);
          body2 =
            (case fenced of
               Some f \<Rightarrow>
                 if matched f \<noteq> [] then trim (removeFirst (matched f) body1)
                 else (case braced of
                         Some b \<Rightarrow>
                           if matched b \<noteq> [] then trim (removeFirst (matched b) body1) else body1
                       | None \<Rightarrow> body1)
             | None \<Rightarrow>
                 (case braced of
                    Some b \<Rightarrow>
                      if matched b \<noteq> [] then trim (removeFirst (matched b) body1) else body1
                  | None \<Rightarrow> body1));
          body3 = trim (replaceAllFrom False reBlankLines [Lit [LF]] [] body2);
          tagList = dedupe [] (map lc (matchAllFrom True reHashtag [] normalized))
      in \<lparr>title = title1, body = Some body3, visual = visual1, visualSnippet = snippet,
          tags = Some tagList\<rparr>)"

subsection \<open>analyzeContent\<close>

definition hasAnyLabel :: "StructuredContent \<Rightarrow> bool" where
  "hasAnyLabel labeled \<longleftrightarrow> truthy (title labeled) \<or> truthy (body labeled) \<or> truthy (visual labeled)"

definition analyzeContent :: "(jsstring \<Rightarrow> jsstring) \<Rightarrow> jsstring \<Rightarrow> StructuredContent" where
  "analyzeContent lc input =
     (let labeled = extractLabeled input in
      if hasAnyLabel labeled then labeled else heuristics lc input)"

section \<open>Notions for the properties\<close>

subsection \<open>The patterns of the splitter, as scans\<close>

text \<open>
  What the four patterns of the splitter compute, as recursive scans of the text. The
  lemmas \<open>collapseWhitespace_scan\<close>, \<open>breakAfterSentences_scan\<close>,
  \<open>splitSentences_scan\<close>, \<open>splitWhitespace_scan\<close> and \<open>endsSentence_scan\<close> show that
  the matcher on the patterns returns these.
\<close>

text \<open>
  \<open>replace(/\s+/g, ' ')\<close>: every maximal run of white space becomes one space.
\<close>

function collapseWhitespace :: "jsstring \<Rightarrow> jsstring" where
  "collapseWhitespace [] = []"
| "collapseWhitespace (c # cs) =
     (if isWhiteSpace c then SP # collapseWhitespace (dropWhile isWhiteSpace cs)
      else c # collapseWhitespace cs)"
  by pat_completeness auto
termination
  by (relation "measure length") (auto simp: le_imp_less_Suc length_dropWhile_le)

text \<open>
  \<open>replace(/([.!?])\s*([A-Z])/g, '$1\n$2')\<close>. At a code unit of \<open>[.!?]\<close> the pattern
  skips all white space that follows and then needs a letter of \<open>[A-Z]\<close>; giving white
  space back cannot help, since the unit after a shorter run is white space. A match is
  replaced by the punctuation, a line feed and the letter, and the scan goes on after
  the letter; where the pattern fails the unit is copied.
\<close>

function breakAfterSentences :: "jsstring \<Rightarrow> jsstring" where
  "breakAfterSentences [] = []"
| "breakAfterSentences (c # cs) =
     (if isSentenceEnd c then
        (case dropWhile isWhiteSpace cs of
           [] \<Rightarrow> c # breakAfterSentences cs
         | d # ds \<Rightarrow>
             if isUpperAZ d then c # LF # d # breakAfterSentences ds
             else c # breakAfterSentences cs)
      else c # breakAfterSentences cs)"
  by pat_completeness auto
termination
proof (relation "measure length")
  fix c :: jschar and cs x21 x22
  assume "dropWhile isWhiteSpace cs = x21 # x22"
  then have "length (x21 # x22) \<le> length cs"
    by (metis length_dropWhile_le)
  then show "(x22, c # cs) \<in> measure length"
    by simp
qed auto

text \<open>
  \<open>split(/(?<=[.!?])\s+/)\<close>. The first argument holds the current piece, reversed, so
  that its head is the code unit before the position of the scan: the look-behind. A
  piece ends where white space follows one of \<open>. ! ?\<close>; the whole run of white space
  is the separator. After a separator the piece is empty and the unit before the
  position is white space, so the look-behind fails there as it does at position 0.
\<close>

function splitSentences :: "jsstring \<Rightarrow> jsstring \<Rightarrow> jsstring list" where
  "splitSentences acc [] = [rev acc]"
| "splitSentences acc (c # cs) =
     (if isWhiteSpace c \<and> acc \<noteq> [] \<and> isSentenceEnd (hd acc)
      then rev acc # splitSentences [] (dropWhile isWhiteSpace cs)
      else splitSentences (c # acc) cs)"
  by pat_completeness auto
termination
  by (relation "measure (\<lambda>(acc, s). length s)") (auto simp: le_imp_less_Suc length_dropWhile_le)

text \<open>\<open>split(/\s+/)\<close>: the pieces between the maximal runs of white space.\<close>

function splitWhitespace :: "jsstring \<Rightarrow> jsstring \<Rightarrow> jsstring list" where
  "splitWhitespace acc [] = [rev acc]"
| "splitWhitespace acc (c # cs) =
     (if isWhiteSpace c then rev acc # splitWhitespace [] (dropWhile isWhiteSpace cs)
      else splitWhitespace (c # acc) cs)"
  by pat_completeness auto
termination
  by (relation "measure (\<lambda>(acc, s). length s)") (auto simp: le_imp_less_Suc length_dropWhile_le)

text \<open>\<open>/[.!?]$/.test(slide)\<close>: without the \<open>m\<close> flag \<open>$\<close> is the end of the string.\<close>

definition endsSentence :: "jsstring \<Rightarrow> bool" where
  "endsSentence s \<longleftrightarrow> s \<noteq> [] \<and> isSentenceEnd (last s)"

subsection \<open>Words, slides before their full stops, hashtag tokens\<close>

text \<open>
  The words of a text, in the specification's sense: the maximal runs of code units
  that are not white space, in order. The first argument is the word being read,
  reversed.
\<close>

fun wordsFrom :: "jsstring \<Rightarrow> jsstring \<Rightarrow> jsstring list" where
  "wordsFrom acc [] = (if acc = [] then [] else [rev acc])"
| "wordsFrom acc (c # cs) =
     (if isWhiteSpace c then (if acc = [] then [] else [rev acc]) @ wordsFrom [] cs
      else wordsFrom (c # acc) cs)"

definition wordsOf :: "jsstring \<Rightarrow> jsstring list" where
  "wordsOf s = wordsFrom [] s"

text \<open>
  The slides before post-processing appends its full stops: what \<open>splitTextIntoSlides\<close>
  returns is \<open>ensureEnding\<close> of each of them (lemma \<open>splitTextIntoSlides_endings\<close>).
\<close>

definition slidesBeforeEnding :: "jsstring \<Rightarrow> PartialTextSplitterOptions \<Rightarrow> jsstring list" where
  "slidesBeforeEnding input options =
     (let opts = mergeOptions DEFAULT_OPTIONS options in
      if trim input = [] then []
      else
        let sentences = sentencesOf input in
        if sentences = [] then []
        else keptSlides (collectSlides opts sentences) opts)"

text \<open>
  No code unit of \<open>[.!?]\<close> is directly followed by a letter of \<open>[A-Z]\<close>: the texts in
  which the sentence pattern never cuts inside a word.
\<close>

fun noBreakInsideWord :: "jsstring \<Rightarrow> bool" where
  "noBreakInsideWord [] = True"
| "noBreakInsideWord [c] = True"
| "noBreakInsideWord (c # d # cs) =
     (\<not> (isSentenceEnd c \<and> isUpperAZ d) \<and> noBreakInsideWord (d # cs))"

text \<open>
  The hashtag tokens of a text, in the specification's words: a \<open>#\<close> followed by
  letters, digits or underscores, as many as follow; the tokens are read from the left
  and do not overlap.
\<close>

definition isWordUnit :: "jschar \<Rightarrow> bool" where
  "isWordUnit c \<longleftrightarrow>
     (0x41 \<le> c \<and> c \<le> 0x5A) \<or> (0x61 \<le> c \<and> c \<le> 0x7A) \<or> (0x30 \<le> c \<and> c \<le> 0x39) \<or> c = 0x5F"

function hashtagTokens :: "jsstring \<Rightarrow> jsstring list" where
  "hashtagTokens [] = []"
| "hashtagTokens (c # cs) =
     (if c = 0x23 \<and> takeWhile isWordUnit cs \<noteq> []
      then (c # takeWhile isWordUnit cs) # hashtagTokens (dropWhile isWordUnit cs)
      else hashtagTokens cs)"
  by pat_completeness auto
termination
  by (relation "measure length") (auto simp: le_imp_less_Suc length_dropWhile_le)

text \<open>
  What the analyzer needs of \<open>toLowerCase\<close>: on a string of code units below 128 it
  lowers the letters \<open>A\<close>..\<open>Z\<close> and leaves the rest.
\<close>

definition lowersAscii :: "(jsstring \<Rightarrow> jsstring) \<Rightarrow> bool" where
  "lowersAscii lc \<longleftrightarrow> (\<forall>s. (\<forall>c \<in> set s. c < 0x80) \<longrightarrow> lc s = lowerAsciiString s)"

section \<open>Ghost state: why a slide may be longer than the budget\<close>

text \<open>
  The loops once more, with a ghost record beside every current slide and every pushed
  slide. The record does not influence the run (lemma \<open>splitTextIntoSlidesG_erase\<close>:
  without the records the result is that of \<open>splitTextIntoSlides\<close>); it remembers the
  two events that let a slide grow past \<open>maxCharacters\<close>:
  \<^item> \<open>forced\<close>: the slide was force-merged, that is, the branch was taken where adding
    would exceed the budget and the word count of the slide is below the minimum;
  \<^item> \<open>longWord\<close>: \<open>splitLongSentence\<close> started the slide with a single piece that is
    itself longer than the budget.
\<close>

record slideGhost =
  forced :: bool
  longWord :: bool

definition noGhost :: slideGhost where
  "noGhost = \<lparr>forced = False, longWord = False\<rparr>"

definition startGhost :: "jsnumber present \<Rightarrow> jsstring \<Rightarrow> slideGhost" where
  "startGhost maxChars word = \<lparr>forced = False, longWord = jsGreater (numOf (length word)) (toNumber maxChars)\<rparr>"

type_synonym ghostState = "(jsstring \<times> slideGhost) list \<times> jsstring \<times> slideGhost"

definition wordStepG :: "jsnumber present \<Rightarrow> jsnumber present \<Rightarrow> ghostState \<Rightarrow> jsstring \<Rightarrow> ghostState" where
  "wordStepG maxChars minWords st word =
     (case st of (slides, currentSlide, g) \<Rightarrow>
        if currentSlide \<noteq> [] \<and> jsGreater (numOf (length (currentSlide @ SP # word))) (toNumber maxChars) then
          if jsGreaterEq (numOf (getWordCount currentSlide)) (toNumber minWords)
          then (slides @ [(trim currentSlide, g)], word, startGhost maxChars word)
          else (slides, trim (currentSlide @ SP # word), g\<lparr>forced := True\<rparr>)
        else (slides,
              if currentSlide \<noteq> [] then currentSlide @ SP # word else word,
              if currentSlide \<noteq> [] then g else startGhost maxChars word))"

fun wordLoopG :: "jsnumber present \<Rightarrow> jsnumber present \<Rightarrow> jsstring list \<Rightarrow> ghostState \<Rightarrow> ghostState" where
  "wordLoopG maxChars minWords [] st = st"
| "wordLoopG maxChars minWords (word # ws) st =
     wordLoopG maxChars minWords ws (wordStepG maxChars minWords st word)"

definition splitLongSentenceG :: "jsstring \<Rightarrow> jsnumber present \<Rightarrow> jsnumber present \<Rightarrow> ghostState" where
  "splitLongSentenceG sentence maxChars minWords =
     wordLoopG maxChars minWords (splitSpace [] sentence) ([], [], noGhost)"

definition addSentenceG :: "TextSplitterOptions \<Rightarrow> ghostState \<Rightarrow> jsstring \<Rightarrow> ghostState" where
  "addSentenceG opts st trimmedSentence =
     (case st of (slides, currentSlide, g) \<Rightarrow>
        if currentSlide \<noteq> [] \<and>
           jsGreater (numOf (length (currentSlide @ SP # trimmedSentence)))
             (toNumber (maxCharacters opts)) then
          if jsGreaterEq (numOf (getWordCount currentSlide)) (toNumber (minWordsPerSlide opts))
          then (slides @ [(trim currentSlide, g)], trimmedSentence, noGhost)
          else (slides, trim (currentSlide @ SP # trimmedSentence), g\<lparr>forced := True\<rparr>)
        else (slides,
              if currentSlide \<noteq> [] then currentSlide @ SP # trimmedSentence
              else trimmedSentence,
              if currentSlide \<noteq> [] then g else noGhost))"

definition splitIfLongG :: "TextSplitterOptions \<Rightarrow> ghostState \<Rightarrow> ghostState" where
  "splitIfLongG opts st =
     (case st of (slides, currentSlide, g) \<Rightarrow>
        if jsGreater (numOf (length currentSlide)) (toNumber (maxCharacters opts)) then
          (case splitLongSentenceG currentSlide (maxCharacters opts) (minWordsPerSlide opts) of
             (chunks, remainder, gr) \<Rightarrow> (slides @ chunks, remainder, gr))
        else (slides, currentSlide, g))"

definition sentenceStepG :: "TextSplitterOptions \<Rightarrow> ghostState \<Rightarrow> jsstring \<Rightarrow> ghostState" where
  "sentenceStepG opts st sentence = splitIfLongG opts (addSentenceG opts st (trim sentence))"

fun sentenceLoopG :: "TextSplitterOptions \<Rightarrow> jsstring list \<Rightarrow> ghostState \<Rightarrow> ghostState" where
  "sentenceLoopG opts [] st = st"
| "sentenceLoopG opts (sentence # rest) st =
     sentenceLoopG opts rest (sentenceStepG opts st sentence)"

definition collectSlidesG :: "TextSplitterOptions \<Rightarrow> jsstring list \<Rightarrow> (jsstring \<times> slideGhost) list" where
  "collectSlidesG opts sentences =
     (case sentenceLoopG opts sentences ([], [], noGhost) of (slides, currentSlide, g) \<Rightarrow>
        if trim currentSlide \<noteq> [] then slides @ [(trim currentSlide, g)] else slides)"

definition keptSlidesG :: "(jsstring \<times> slideGhost) list \<Rightarrow> TextSplitterOptions \<Rightarrow> (jsstring \<times> slideGhost) list" where
  "keptSlidesG slides options =
     filter (\<lambda>p. jsGreaterEq (numOf (getWordCount (fst p)))
                   (jsMin (toNumber (minWordsPerSlide options)) (Num 1)))
       (filter (\<lambda>p. length (fst p) > 0) (map (\<lambda>p. (trim (fst p), snd p)) slides))"

definition postProcessSlidesG :: "(jsstring \<times> slideGhost) list \<Rightarrow> TextSplitterOptions \<Rightarrow> (jsstring \<times> slideGhost) list" where
  "postProcessSlidesG slides options =
     map (\<lambda>p. (ensureEnding (fst p), snd p)) (keptSlidesG slides options)"

definition splitTextIntoSlidesG :: "jsstring \<Rightarrow> PartialTextSplitterOptions \<Rightarrow> (jsstring \<times> slideGhost) list" where
  "splitTextIntoSlidesG input options =
     (let opts = mergeOptions DEFAULT_OPTIONS options in
      if trim input = [] then []
      else
        let sentences = sentencesOf input in
        if sentences = [] then []
        else postProcessSlidesG (collectSlidesG opts sentences) opts)"

text \<open>A state without its ghost records.\<close>

definition eraseG :: "ghostState \<Rightarrow> jsstring list \<times> jsstring" where
  "eraseG st = (map fst (fst st), fst (snd st))"

text \<open>
  A slide is within the budget \<open>m\<close> unless one of the two events happened to it; a
  state is within the budget when its pushed slides are, and its current slide unless
  that is empty (an empty current slide is never pushed).
\<close>

definition withinBudget :: "jsnumber \<Rightarrow> jsstring \<times> slideGhost \<Rightarrow> bool" where
  "withinBudget m p \<longleftrightarrow>
     forced (snd p) \<or> longWord (snd p) \<or> jsLessEq (numOf (length (fst p))) m"

definition stateWithinBudget :: "jsnumber \<Rightarrow> ghostState \<Rightarrow> bool" where
  "stateWithinBudget m st \<longleftrightarrow>
     list_all (withinBudget m) (fst st) \<and>
     (fst (snd st) = [] \<or> withinBudget m (fst (snd st), snd (snd st)))"

section \<open>Properties\<close>

subsection \<open>Classes of code units\<close>

lemma SP_space [simp]: "isWhiteSpace SP"
  by (simp add: isWhiteSpace_def SP_def)

lemma LF_space [simp]: "isWhiteSpace LF"
  by (simp add: isWhiteSpace_def LF_def)

lemma FULLSTOP_not_space [simp]: "\<not> isWhiteSpace FULLSTOP"
  by (simp add: isWhiteSpace_def FULLSTOP_def)

lemma sentenceEnd_not_space: "isSentenceEnd c \<Longrightarrow> \<not> isWhiteSpace c"
  by (auto simp: isSentenceEnd_def isWhiteSpace_def)

lemma upper_not_space: "isUpperAZ c \<Longrightarrow> \<not> isWhiteSpace c"
  unfolding isUpperAZ_def isWhiteSpace_def
  by (auto simp: word_le_nat_alt)

subsection \<open>The matcher on classes and their stars\<close>

lemma matchRe_Cls:
  "matchRe ic (Cls P) (MState pre suf g) =
     (case suf of [] \<Rightarrow> []
      | ch # rest \<Rightarrow> if unitMatches ic P ch then [MState (ch # pre) rest g] else [])"
  by (simp split: list.splits)

lemma matchRe_Chr:
  "matchRe ic (Chr c) (MState pre suf g) =
     (case suf of [] \<Rightarrow> []
      | ch # rest \<Rightarrow> if unitMatches ic (\<lambda>x. x = c) ch then [MState (ch # pre) rest g] else [])"
  by (simp split: list.splits)

text \<open>The greedy star of a class: its first result takes the whole run.\<close>

lemma matchRe_Star_Cls:
  "\<exists>others. matchRe ic (Star True (Cls P)) (MState pre suf g) =
     MState (rev (takeWhile (unitMatches ic P) suf) @ pre) (dropWhile (unitMatches ic P) suf) g
     # others"
proof (induction suf arbitrary: pre)
  case Nil
  then show ?case by simp
next
  case (Cons ch rest)
  show ?case
  proof (cases "unitMatches ic P ch")
    case False
    then show ?thesis by simp
  next
    case True
    from Cons [of "ch # pre"] obtain others where
      "matchRe ic (Star True (Cls P)) (MState (ch # pre) rest g) =
       MState (rev (takeWhile (unitMatches ic P) rest) @ ch # pre)
         (dropWhile (unitMatches ic P) rest) g # others"
      by blast
    with True show ?thesis
      by simp
  qed
qed

text \<open>
  The greedy star of a class before a pattern that cannot start with a code unit of
  the class: giving code units back never helps, so only the whole run counts.
\<close>

lemma matchRe_Star_Cls_then:
  assumes "\<And>pre' ch rest g'. unitMatches ic P ch \<Longrightarrow> matchRe ic r (MState pre' (ch # rest) g') = []"
  shows "matchRe ic (Seq (Star True (Cls P)) r) (MState pre suf g) =
     matchRe ic r (MState (rev (takeWhile (unitMatches ic P) suf) @ pre)
       (dropWhile (unitMatches ic P) suf) g)"
proof (induction suf arbitrary: pre)
  case Nil
  then show ?case by simp
next
  case (Cons ch rest)
  show ?case
  proof (cases "unitMatches ic P ch")
    case False
    then show ?thesis by simp
  next
    case True
    have "matchRe ic (Seq (Star True (Cls P)) r) (MState pre (ch # rest) g) =
        matchRe ic (Seq (Star True (Cls P)) r) (MState (ch # pre) rest g) @
        matchRe ic r (MState pre (ch # rest) g)"
      using True by simp
    also have "matchRe ic r (MState pre (ch # rest) g) = []"
      using True by (rule assms)
    finally show ?thesis
      using True Cons [of "ch # pre"] by simp
  qed
qed

lemma length_takeWhile_drop:
  "length xs - length (dropWhile P xs) = length (takeWhile P xs)"
proof -
  have "length (takeWhile P xs) + length (dropWhile P xs) = length xs"
    by (metis length_append takeWhile_dropWhile_id)
  then show ?thesis
    by linarith
qed

lemma take_takeWhile: "take (length (takeWhile P xs)) xs = takeWhile P xs"
  by (metis append_eq_conv_conj takeWhile_dropWhile_id)

subsection \<open>The patterns of the splitter are the scans\<close>

lemma unitMatches_cs [simp]: "unitMatches False P = P"
  by (rule ext) (simp add: unitMatches_def)

text \<open>\<open>/\s+/\<close> at a position: the whole run of white space, if there is one.\<close>

lemma matchAt_reSpaces_Nil: "matchAt False reSpaces pre [] = None"
  by (simp add: matchAt_def reSpaces_def Plus_def reSpace_def)

lemma matchAt_reSpaces:
  "matchAt False reSpaces pre (c # cs) =
     (if isWhiteSpace c
      then Some (MState (rev (takeWhile isWhiteSpace cs) @ c # pre) (dropWhile isWhiteSpace cs) [])
      else None)"
proof (cases "isWhiteSpace c")
  case False
  then show ?thesis
    by (simp add: matchAt_def reSpaces_def Plus_def reSpace_def)
next
  case True
  obtain others where
    "matchRe False (Star True (Cls isWhiteSpace)) (MState (c # pre) cs []) =
     MState (rev (takeWhile isWhiteSpace cs) @ c # pre) (dropWhile isWhiteSpace cs) [] # others"
    using matchRe_Star_Cls [of False isWhiteSpace "c # pre" cs "[]"] by auto
  with True show ?thesis
    by (simp add: matchAt_def reSpaces_def Plus_def reSpace_def del: matchRe.simps(6))
qed

lemma collapseWhitespace_scan:
  "replaceAllFrom False reSpaces [Lit [SP]] pre s = collapseWhitespace s"
proof (induction s arbitrary: pre rule: collapseWhitespace.induct)
  case 1
  then show ?case
    by (simp add: matchAt_reSpaces_Nil)
next
  case (2 c cs)
  show ?case
  proof (cases "isWhiteSpace c")
    case True
    with "2.IH"(1) show ?thesis
      by (simp add: matchAt_reSpaces le_imp_less_Suc length_dropWhile_le)
  next
    case False
    with "2.IH"(2) show ?thesis
      by (simp add: matchAt_reSpaces)
  qed
qed

lemma splitFrom_reSpaces: "splitFrom False reSpaces piece pre s = splitWhitespace piece s"
proof (induction piece s arbitrary: pre rule: splitWhitespace.induct)
  case (1 acc)
  then show ?case by simp
next
  case (2 acc c cs)
  show ?case
  proof (cases "isWhiteSpace c")
    case True
    with "2.IH"(1) show ?thesis
      by (simp add: matchAt_reSpaces le_imp_less_Suc length_dropWhile_le)
  next
    case False
    with "2.IH"(2) show ?thesis
      by (simp add: matchAt_reSpaces)
  qed
qed

lemma splitWhitespace_scan: "jsSplit False reSpaces s = splitWhitespace [] s"
  by (simp add: jsSplit_def matchAt_reSpaces_Nil splitFrom_reSpaces)

text \<open>\<open>/(?<=[.!?])\s+/\<close> at a position: the run of white space, after one of \<open>. ! ?\<close>.\<close>

lemma matchAt_reSentenceGap_Nil: "matchAt False reSentenceGap pre [] = None"
  by (cases pre) (simp_all add: matchAt_def reSentenceGap_def Plus_def reSpace_def)

lemma matchAt_reSentenceGap:
  "matchAt False reSentenceGap pre (c # cs) =
     (if pre \<noteq> [] \<and> isSentenceEnd (hd pre) \<and> isWhiteSpace c
      then Some (MState (rev (takeWhile isWhiteSpace cs) @ c # pre) (dropWhile isWhiteSpace cs) [])
      else None)"
proof (cases "pre \<noteq> [] \<and> isSentenceEnd (hd pre) \<and> isWhiteSpace c")
  case False
  then show ?thesis
    by (cases pre) (auto simp: matchAt_def reSentenceGap_def Plus_def reSpace_def)
next
  case True
  then obtain p ps where pre: "pre = p # ps"
    by (cases pre) auto
  obtain others where
    "matchRe False (Star True (Cls isWhiteSpace)) (MState (c # pre) cs []) =
     MState (rev (takeWhile isWhiteSpace cs) @ c # pre) (dropWhile isWhiteSpace cs) [] # others"
    using matchRe_Star_Cls [of False isWhiteSpace "c # pre" cs "[]"] by auto
  with True pre show ?thesis
    by (simp add: matchAt_def reSentenceGap_def Plus_def reSpace_def del: matchRe.simps(6))
qed

lemma splitFrom_reSentenceGap:
  "(piece \<noteq> [] \<longrightarrow> pre \<noteq> [] \<and> hd pre = hd piece) \<Longrightarrow>
   (piece = [] \<longrightarrow> pre = [] \<or> \<not> isSentenceEnd (hd pre)) \<Longrightarrow>
   splitFrom False reSentenceGap piece pre s = splitSentences piece s"
proof (induction piece s arbitrary: pre rule: splitSentences.induct)
  case (1 acc)
  then show ?case by simp
next
  case (2 acc c cs)
  have same: "(pre \<noteq> [] \<and> isSentenceEnd (hd pre)) \<longleftrightarrow> (acc \<noteq> [] \<and> isSentenceEnd (hd acc))"
    using "2.prems" by auto
  show ?case
  proof (cases "isWhiteSpace c \<and> acc \<noteq> [] \<and> isSentenceEnd (hd acc)")
    case True
    let ?pre' = "rev (takeWhile isWhiteSpace cs) @ c # pre"
    have "isWhiteSpace (hd ?pre')"
    proof (cases "takeWhile isWhiteSpace cs" rule: rev_cases)
      case Nil
      with True show ?thesis by simp
    next
      case (snoc ys y)
      then have "y \<in> set (takeWhile isWhiteSpace cs)"
        by simp
      then have "isWhiteSpace y"
        by (rule set_takeWhileD [THEN conjunct2])
      with snoc show ?thesis by simp
    qed
    then have "\<not> isSentenceEnd (hd ?pre')"
      using sentenceEnd_not_space by blast
    then have "splitFrom False reSentenceGap [] ?pre' (dropWhile isWhiteSpace cs) =
        splitSentences [] (dropWhile isWhiteSpace cs)"
      using "2.IH"(1) [OF True, of ?pre'] by simp
    with True same show ?thesis
      by (simp add: matchAt_reSentenceGap le_imp_less_Suc length_dropWhile_le)
  next
    case False
    then have "splitFrom False reSentenceGap (c # acc) (c # pre) cs = splitSentences (c # acc) cs"
      using "2.IH"(2) [of "c # pre"] by simp
    with False same show ?thesis
      by (auto simp: matchAt_reSentenceGap)
  qed
qed

lemma splitSentences_scan: "jsSplit False reSentenceGap s = splitSentences [] s"
  by (simp add: jsSplit_def matchAt_reSentenceGap_Nil splitFrom_reSentenceGap)

text \<open>
  \<open>/([.!?])\s*([A-Z])/\<close> at a position: one of \<open>. ! ?\<close>, the white space after it, and
  a letter of \<open>A\<close>..\<open>Z\<close>.
\<close>

lemma matchAt_reSentenceBreak_Nil: "matchAt False reSentenceBreak pre [] = None"
  by (simp add: matchAt_def reSentenceBreak_def)

lemma upper_after_space:
  "isWhiteSpace ch \<Longrightarrow> matchRe False (Group 2 (Cls isUpperAZ)) (MState pre' (ch # rest) g') = []"
  by (auto dest: upper_not_space)

lemma matchAt_reSentenceBreak:
  "matchAt False reSentenceBreak pre (c # cs) =
     (if isSentenceEnd c then
        (case dropWhile isWhiteSpace cs of
           [] \<Rightarrow> None
         | d # ds \<Rightarrow>
             if isUpperAZ d
             then Some (MState (d # rev (takeWhile isWhiteSpace cs) @ c # pre) ds [(2, [d]), (1, [c])])
             else None)
      else None)"
proof (cases "isSentenceEnd c")
  case False
  then show ?thesis
    by (simp add: matchAt_def reSentenceBreak_def)
next
  case True
  have star: "matchRe False (Seq (Star True (Cls isWhiteSpace)) (Group 2 (Cls isUpperAZ)))
        (MState (c # pre) cs [(1, [c])]) =
      matchRe False (Group 2 (Cls isUpperAZ))
        (MState (rev (takeWhile isWhiteSpace cs) @ c # pre) (dropWhile isWhiteSpace cs) [(1, [c])])"
    using matchRe_Star_Cls_then [of False isWhiteSpace "Group 2 (Cls isUpperAZ)" "c # pre" cs "[(1, [c])]"]
      upper_after_space by simp
  have first: "matchRe False (Group 1 (Cls isSentenceEnd)) (MState pre (c # cs) []) =
      [MState (c # pre) cs [(1, [c])]]"
    using True by simp
  have "matchRe False reSentenceBreak (MState pre (c # cs) []) =
      matchRe False (Group 2 (Cls isUpperAZ))
        (MState (rev (takeWhile isWhiteSpace cs) @ c # pre) (dropWhile isWhiteSpace cs) [(1, [c])])"
    unfolding reSentenceBreak_def reSpace_def matchRe.simps(4) [of False "Group 1 (Cls isSentenceEnd)"] first
    using star by simp
  then show ?thesis
    using True
    by (cases "dropWhile isWhiteSpace cs") (simp_all add: matchAt_def del: dropWhile_eq_Nil_conv)
qed

lemma breakAfterSentences_scan:
  "replaceAllFrom False reSentenceBreak [Ref 1, Lit [LF], Ref 2] pre s = breakAfterSentences s"
proof (induction s arbitrary: pre rule: breakAfterSentences.induct)
  case 1
  then show ?case
    by (simp add: matchAt_reSentenceBreak_Nil)
next
  case (2 c cs)
  show ?case
  proof (cases "isSentenceEnd c")
    case False
    with "2.IH"(4) show ?thesis
      by (simp add: matchAt_reSentenceBreak)
  next
    case True
    show ?thesis
    proof (cases "dropWhile isWhiteSpace cs")
      case Nil
      with True "2.IH"(1) show ?thesis
        by (simp add: matchAt_reSentenceBreak del: dropWhile_eq_Nil_conv)
    next
      case (Cons d ds)
      have "length (d # ds) \<le> length cs"
        using length_dropWhile_le [of isWhiteSpace cs] Cons by simp
      then have shorter: "length ds < Suc (length cs)"
        by simp
      show ?thesis
      proof (cases "isUpperAZ d")
        case False
        with True Cons "2.IH"(3) show ?thesis
          by (simp add: matchAt_reSentenceBreak)
      next
        case up: True
        with True Cons shorter "2.IH"(2) show ?thesis
          by (simp add: matchAt_reSentenceBreak)
      qed
    qed
  qed
qed

text \<open>\<open>/[.!?]$/\<close>: the last code unit is one of \<open>. ! ?\<close>.\<close>

lemma execFrom_reEndsSentence:
  "execFrom False reEndsSentence pre s \<noteq> None \<longleftrightarrow> s \<noteq> [] \<and> isSentenceEnd (last s)"
proof (induction s arbitrary: pre)
  case Nil
  then show ?case
    by (simp add: matchAt_def reEndsSentence_def)
next
  case (Cons c cs)
  have "matchAt False reEndsSentence pre (c # cs) \<noteq> None \<longleftrightarrow> isSentenceEnd c \<and> cs = []"
    by (simp add: matchAt_def reEndsSentence_def)
  with Cons [of "c # pre"] show ?case
    by (cases "matchAt False reEndsSentence pre (c # cs)") auto
qed

lemma endsSentence_scan: "jsTest False reEndsSentence s = endsSentence s"
  unfolding jsTest_def jsMatch_def endsSentence_def by (rule execFrom_reEndsSentence)

text \<open>The definitions of the splitter, with the scans for the patterns.\<close>

lemma cleanText_scan: "cleanText s = breakAfterSentences (collapseWhitespace (trim s))"
  unfolding cleanText_def collapseWhitespace_scan breakAfterSentences_scan ..

lemma sentencesOf_scan:
  "sentencesOf s = filter (\<lambda>sentence. trim sentence \<noteq> []) (splitSentences [] (cleanText s))"
  by (simp add: sentencesOf_def splitSentences_scan)

lemma getWordCount_scan:
  "getWordCount s = length (filter (\<lambda>w. w \<noteq> []) (splitWhitespace [] (trim s)))"
  by (simp add: getWordCount_def splitWhitespace_scan)

lemma ensureEnding_scan:
  "ensureEnding slide =
     (if \<not> endsSentence slide \<and> length slide > 10 \<and> length (splitSpace [] slide) \<ge> 3
      then slide @ [FULLSTOP] else slide)"
  by (simp add: ensureEnding_def endsSentence_scan Let_def)

subsection \<open>trim\<close>

lemma trim_Nil [simp]: "trim [] = []"
  by (simp add: trim_def)

lemma length_trim_le: "length (trim s) \<le> length s"
proof -
  have "length (trim s) \<le> length (rev (dropWhile isWhiteSpace s))"
    unfolding trim_def length_rev by (metis length_dropWhile_le length_rev)
  also have "\<dots> \<le> length s"
    by (simp add: length_dropWhile_le)
  finally show ?thesis .
qed

lemma trim_decompose:
  "\<exists>a b. s = a @ trim s @ b \<and> (\<forall>c \<in> set a. isWhiteSpace c) \<and> (\<forall>c \<in> set b. isWhiteSpace c)"
proof -
  let ?a = "takeWhile isWhiteSpace s"
  let ?m = "dropWhile isWhiteSpace s"
  let ?b = "rev (takeWhile isWhiteSpace (rev ?m))"
  have "rev ?m = takeWhile isWhiteSpace (rev ?m) @ dropWhile isWhiteSpace (rev ?m)"
    by simp
  then have "?m = rev (dropWhile isWhiteSpace (rev ?m)) @ ?b"
    by (metis rev_append rev_rev_ident)
  then have "s = ?a @ trim s @ ?b"
    by (metis takeWhile_dropWhile_id trim_def)
  moreover have "\<forall>c \<in> set ?a. isWhiteSpace c"
    by (auto dest: set_takeWhileD)
  moreover have "\<forall>c \<in> set ?b. isWhiteSpace c"
    by (auto dest: set_takeWhileD)
  ultimately show ?thesis
    by blast
qed

lemma trim_nonempty_has_unit:
  assumes "trim s \<noteq> []"
  shows "\<exists>c \<in> set (trim s). \<not> isWhiteSpace c"
proof -
  let ?m = "dropWhile isWhiteSpace (rev (dropWhile isWhiteSpace s))"
  from assms have ne: "?m \<noteq> []"
    by (simp add: trim_def)
  then have "\<not> isWhiteSpace (hd ?m)"
    by (rule hd_dropWhile)
  moreover from ne have "hd ?m \<in> set (trim s)"
    by (simp add: trim_def)
  ultimately show ?thesis
    by blast
qed

subsection \<open>Words\<close>

lemma wordsFrom_spaces:
  "\<forall>c \<in> set v. isWhiteSpace c \<Longrightarrow> wordsFrom acc v = (if acc = [] then [] else [rev acc])"
proof (induction v arbitrary: acc)
  case Nil
  then show ?case by simp
next
  case (Cons c v)
  then have "wordsFrom [] v = []"
    by simp
  with Cons.prems show ?case
    by simp
qed

lemma wordsFrom_append_space:
  "isWhiteSpace c \<Longrightarrow> wordsFrom acc (a @ c # b) = wordsFrom acc a @ wordsFrom [] b"
  by (induction a arbitrary: acc) simp_all

lemma wordsFrom_append_spaces:
  "\<forall>c \<in> set v. isWhiteSpace c \<Longrightarrow> wordsFrom acc (a @ v) = wordsFrom acc a"
proof (induction a arbitrary: acc)
  case Nil
  then show ?case
    by (simp add: wordsFrom_spaces)
next
  case (Cons x a)
  then show ?case
    by simp
qed

lemma wordsFrom_skip_spaces:
  "\<forall>c \<in> set v. isWhiteSpace c \<Longrightarrow> wordsFrom [] (v @ s) = wordsFrom [] s"
  by (induction v) simp_all

lemma wordsFrom_dropWhile: "wordsFrom [] (dropWhile isWhiteSpace s) = wordsFrom [] s"
  by (induction s) simp_all

lemma wordsFrom_acc_nonempty: "acc \<noteq> [] \<Longrightarrow> wordsFrom acc s \<noteq> []"
  by (induction s arbitrary: acc) auto

lemma wordsFrom_has_unit:
  "\<exists>c \<in> set s. \<not> isWhiteSpace c \<Longrightarrow> wordsFrom acc s \<noteq> []"
  by (induction s arbitrary: acc) (auto simp: wordsFrom_acc_nonempty)

lemma wordsOf_Nil [simp]: "wordsOf [] = []"
  by (simp add: wordsOf_def)

lemma wordsOf_trim [simp]: "wordsOf (trim s) = wordsOf s"
proof -
  obtain a b where s: "s = a @ trim s @ b"
    and a: "\<forall>c \<in> set a. isWhiteSpace c" and b: "\<forall>c \<in> set b. isWhiteSpace c"
    using trim_decompose by blast
  have "wordsOf s = wordsFrom [] (a @ (trim s @ b))"
    using s by (simp add: wordsOf_def)
  also have "\<dots> = wordsFrom [] (trim s @ b)"
    using a by (rule wordsFrom_skip_spaces)
  also have "\<dots> = wordsFrom [] (trim s)"
    using b by (rule wordsFrom_append_spaces)
  finally show ?thesis
    by (simp add: wordsOf_def)
qed

lemma wordsOf_dropWhile [simp]: "wordsOf (dropWhile isWhiteSpace s) = wordsOf s"
  by (simp add: wordsOf_def wordsFrom_dropWhile)

lemma wordsOf_append_space:
  "isWhiteSpace c \<Longrightarrow> wordsOf (a @ c # b) = wordsOf a @ wordsOf b"
  by (simp add: wordsOf_def wordsFrom_append_space)

lemma wordsOf_empty_trim: "trim s = [] \<Longrightarrow> wordsOf s = []"
  by (metis wordsOf_trim wordsOf_Nil)

lemma wordsOf_nonempty_trim: "trim s \<noteq> [] \<Longrightarrow> wordsOf s \<noteq> []"
proof -
  assume "trim s \<noteq> []"
  then have "\<exists>c \<in> set (trim s). \<not> isWhiteSpace c"
    by (rule trim_nonempty_has_unit)
  then have "wordsOf (trim s) \<noteq> []"
    unfolding wordsOf_def by (rule wordsFrom_has_unit)
  then show ?thesis
    by simp
qed

text \<open>The scans of the splitter, in terms of words.\<close>

lemma splitWhitespace_words:
  "filter (\<lambda>w. w \<noteq> []) (splitWhitespace acc s) = wordsFrom acc s"
  by (induction acc s rule: splitWhitespace.induct) (simp_all add: wordsFrom_dropWhile)

lemma getWordCount_words: "getWordCount s = length (wordsOf s)"
proof -
  have "getWordCount s = length (wordsOf (trim s))"
    by (simp add: getWordCount_scan splitWhitespace_words wordsOf_def)
  then show ?thesis
    by simp
qed

lemma collapseWhitespace_words:
  "wordsFrom acc (collapseWhitespace s) = wordsFrom acc s"
  by (induction s arbitrary: acc rule: collapseWhitespace.induct) (simp_all add: wordsFrom_dropWhile)

lemma splitSentences_words:
  "concat (map wordsOf (splitSentences acc s)) = wordsOf (rev acc @ s)"
proof (induction acc s rule: splitSentences.induct)
  case (1 acc)
  then show ?case by simp
next
  case (2 acc c cs)
  show ?case
  proof (cases "isWhiteSpace c \<and> acc \<noteq> [] \<and> isSentenceEnd (hd acc)")
    case True
    with 2 have "concat (map wordsOf (splitSentences acc (c # cs))) = wordsOf (rev acc) @ wordsOf cs"
      by simp
    with True show ?thesis
      by (simp add: wordsOf_append_space)
  next
    case False
    with 2 show ?thesis
      by auto
  qed
qed

lemma splitSpace_words:
  "concat (map wordsOf (splitSpace acc s)) = wordsOf (rev acc @ s)"
proof (induction acc s rule: splitSpace.induct)
  case (1 acc)
  then show ?case by simp
next
  case (2 acc c cs)
  then show ?case
    by (cases "c = SP") (simp_all add: wordsOf_append_space)
qed

subsection \<open>The loops keep the words\<close>

lemma wordStep_words:
  "concat (map wordsOf (fst (wordStep M W st w))) @ wordsOf (snd (wordStep M W st w)) =
   concat (map wordsOf (fst st)) @ wordsOf (snd st) @ wordsOf w"
  by (cases st) (simp add: wordStep_def wordsOf_append_space)

lemma wordLoop_words:
  "concat (map wordsOf (fst (wordLoop M W ws st))) @ wordsOf (snd (wordLoop M W ws st)) =
   concat (map wordsOf (fst st)) @ wordsOf (snd st) @ concat (map wordsOf ws)"
proof (induction ws arbitrary: st)
  case Nil
  then show ?case by simp
next
  case (Cons w ws)
  show ?case
    using Cons.IH [of "wordStep M W st w"] wordStep_words [of M W st w]
    by simp
qed

lemma splitLongSentence_words:
  "concat (map wordsOf (fst (splitLongSentence s M W))) @ wordsOf (snd (splitLongSentence s M W)) =
   wordsOf s"
  using wordLoop_words [of M W "splitSpace [] s" "([], [])"] splitSpace_words [of "[]" s]
  by (simp add: splitLongSentence_def)

lemma addSentence_words:
  "concat (map wordsOf (fst (addSentence opts st s))) @ wordsOf (snd (addSentence opts st s)) =
   concat (map wordsOf (fst st)) @ wordsOf (snd st) @ wordsOf s"
  by (cases st) (simp add: addSentence_def wordsOf_append_space)

lemma splitIfLong_words:
  "concat (map wordsOf (fst (splitIfLong opts st))) @ wordsOf (snd (splitIfLong opts st)) =
   concat (map wordsOf (fst st)) @ wordsOf (snd st)"
  by (cases st) (simp add: splitIfLong_def Let_def splitLongSentence_words)

lemma sentenceStep_words:
  "concat (map wordsOf (fst (sentenceStep opts st s))) @ wordsOf (snd (sentenceStep opts st s)) =
   concat (map wordsOf (fst st)) @ wordsOf (snd st) @ wordsOf s"
  by (simp add: sentenceStep_def splitIfLong_words addSentence_words)

lemma sentenceLoop_words:
  "concat (map wordsOf (fst (sentenceLoop opts ss st))) @ wordsOf (snd (sentenceLoop opts ss st)) =
   concat (map wordsOf (fst st)) @ wordsOf (snd st) @ concat (map wordsOf ss)"
proof (induction ss arbitrary: st)
  case Nil
  then show ?case by simp
next
  case (Cons s ss)
  show ?case
    using Cons.IH [of "sentenceStep opts st s"] sentenceStep_words [of opts st s]
    by simp
qed

lemma collectSlides_words:
  "concat (map wordsOf (collectSlides opts ss)) = concat (map wordsOf ss)"
proof -
  obtain slides cur where r: "sentenceLoop opts ss ([], []) = (slides, cur)"
    by (cases "sentenceLoop opts ss ([], [])")
  have "concat (map wordsOf slides) @ wordsOf cur = concat (map wordsOf ss)"
    using sentenceLoop_words [of opts ss "([], [])"] by (simp add: r)
  then show ?thesis
    by (auto simp: collectSlides_def r wordsOf_empty_trim)
qed

lemma concat_words_filter:
  "\<forall>s \<in> set xs. \<not> P s \<longrightarrow> wordsOf s = [] \<Longrightarrow>
   concat (map wordsOf (filter P xs)) = concat (map wordsOf xs)"
  by (induction xs) auto

lemma sentencesOf_words: "concat (map wordsOf (sentencesOf s)) = wordsOf (cleanText s)"
proof -
  have "concat (map wordsOf (sentencesOf s)) =
        concat (map wordsOf (splitSentences [] (cleanText s)))"
    unfolding sentencesOf_scan
    by (rule concat_words_filter) (auto simp: wordsOf_empty_trim)
  then show ?thesis
    by (simp add: splitSentences_words)
qed

subsection \<open>Comparisons with a count\<close>

lemma numOf_not_NaN [simp]: "numOf n \<noteq> NaN"
  by (simp add: numOf_def)

lemma jsGreaterEq_min_one:
  "M \<noteq> NaN \<Longrightarrow> n \<ge> 1 \<Longrightarrow> jsGreaterEq (numOf n) (jsMin M (Num 1))"
  by (cases M) (auto simp: jsGreaterEq_def jsMin_def numOf_def)

lemma jsGreaterEq_min_NaN: "\<not> jsGreaterEq a (jsMin NaN b)"
  by (simp add: jsGreaterEq_def jsMin_def)

lemma not_jsGreater_jsLessEq:
  "m \<noteq> NaN \<Longrightarrow> \<not> jsGreater (numOf n) m \<Longrightarrow> jsLessEq (numOf n) m"
  by (simp add: jsGreater_def jsLessEq_def)

lemma jsLessEq_mono: "jsLessEq (numOf a) m \<Longrightarrow> b \<le> a \<Longrightarrow> jsLessEq (numOf b) m"
  by (cases m) (auto simp: jsLessEq_def numOf_def)

lemma jsLess_NaN [simp]: "\<not> jsLess a NaN"
  by (cases a) simp_all

lemma jsGreater_not_NaN: "jsGreater a b \<Longrightarrow> a \<noteq> NaN"
  by (auto simp: jsGreater_def)

lemma jsGreaterEq_not_NaN: "jsGreaterEq a b \<Longrightarrow> a \<noteq> NaN"
  by (simp add: jsGreaterEq_def)

subsection \<open>The filter of post-processing\<close>

text \<open>
  Where \<open>minWordsPerSlide\<close> is a number other than NaN, the filter on the word count
  keeps every slide that is not empty: \<open>Math.min\<close> gives at most 1. Where it is NaN or
  \<open>undefined\<close>, \<open>Math.min\<close> gives NaN and the filter keeps no slide.
\<close>

lemma keptSlides_nonempty:
  assumes "toNumber (minWordsPerSlide opts) \<noteq> NaN"
  shows "keptSlides slides opts = filter (\<lambda>slide. length slide > 0) (map trim slides)"
proof -
  let ?nonempty = "filter (\<lambda>slide. length slide > 0) (map trim slides)"
  have "\<forall>s \<in> set ?nonempty. jsGreaterEq (numOf (getWordCount s))
      (jsMin (toNumber (minWordsPerSlide opts)) (Num 1))"
  proof
    fix s assume "s \<in> set ?nonempty"
    then obtain u where "s = trim u" and "trim u \<noteq> []"
      by auto
    then have "wordsOf s \<noteq> []"
      using wordsOf_nonempty_trim [of u] by simp
    then have "getWordCount s \<ge> 1"
      by (simp add: getWordCount_words Suc_le_eq)
    with assms show "jsGreaterEq (numOf (getWordCount s))
        (jsMin (toNumber (minWordsPerSlide opts)) (Num 1))"
      by (rule jsGreaterEq_min_one)
  qed
  then show ?thesis
    unfolding keptSlides_def by (rule filter_True)
qed

lemma keptSlides_NaN:
  "toNumber (minWordsPerSlide opts) = NaN \<Longrightarrow> keptSlides slides opts = []"
  by (simp add: keptSlides_def jsGreaterEq_min_NaN)

lemma keptSlides_words:
  assumes "toNumber (minWordsPerSlide opts) \<noteq> NaN"
  shows "concat (map wordsOf (keptSlides slides opts)) = concat (map wordsOf slides)"
proof -
  let ?trimmed = "map trim slides"
  let ?nonempty = "filter (\<lambda>slide. length slide > 0) ?trimmed"
  have "keptSlides slides opts = ?nonempty"
    using assms by (rule keptSlides_nonempty)
  moreover have "concat (map wordsOf ?nonempty) = concat (map wordsOf ?trimmed)"
    by (rule concat_words_filter) auto
  moreover have "concat (map wordsOf ?trimmed) = concat (map wordsOf slides)"
    by (simp add: comp_def)
  ultimately show ?thesis
    by simp
qed

lemma filter_units_spaces:
  "\<forall>c \<in> set v. isWhiteSpace c \<Longrightarrow> filter (\<lambda>c. \<not> isWhiteSpace c) v = []"
  by (induction v) auto

lemma trim_units: "filter (\<lambda>c. \<not> isWhiteSpace c) (trim s) = filter (\<lambda>c. \<not> isWhiteSpace c) s"
proof -
  obtain a b where s: "s = a @ trim s @ b"
    and a: "\<forall>c \<in> set a. isWhiteSpace c" and b: "\<forall>c \<in> set b. isWhiteSpace c"
    using trim_decompose by blast
  have "filter (\<lambda>c. \<not> isWhiteSpace c) s = filter (\<lambda>c. \<not> isWhiteSpace c) (a @ trim s @ b)"
    using s by simp
  then show ?thesis
    using a b by (simp add: filter_units_spaces)
qed

lemma filter_dropWhile_units:
  "filter (\<lambda>c. \<not> isWhiteSpace c) (dropWhile isWhiteSpace s) = filter (\<lambda>c. \<not> isWhiteSpace c) s"
  by (induction s) auto

lemma collapseWhitespace_units:
  "filter (\<lambda>c. \<not> isWhiteSpace c) (collapseWhitespace s) = filter (\<lambda>c. \<not> isWhiteSpace c) s"
  by (induction s rule: collapseWhitespace.induct) (simp_all add: filter_dropWhile_units)

text \<open>The equations of \<open>breakAfterSentences\<close>, case by case.\<close>

lemma breakAfterSentences_copy:
  "\<not> isSentenceEnd c \<Longrightarrow> breakAfterSentences (c # cs) = c # breakAfterSentences cs"
  by simp

lemma breakAfterSentences_end:
  "dropWhile isWhiteSpace cs = [] \<Longrightarrow> breakAfterSentences (c # cs) = c # breakAfterSentences cs"
  by (simp del: dropWhile_eq_Nil_conv)

lemma breakAfterSentences_other:
  "dropWhile isWhiteSpace cs = d # ds \<Longrightarrow> \<not> isUpperAZ d \<Longrightarrow>
   breakAfterSentences (c # cs) = c # breakAfterSentences cs"
  by simp

lemma breakAfterSentences_break:
  "isSentenceEnd c \<Longrightarrow> dropWhile isWhiteSpace cs = d # ds \<Longrightarrow> isUpperAZ d \<Longrightarrow>
   breakAfterSentences (c # cs) = c # LF # d # breakAfterSentences ds"
  by simp

lemma breakAfterSentences_units:
  "filter (\<lambda>c. \<not> isWhiteSpace c) (breakAfterSentences s) = filter (\<lambda>c. \<not> isWhiteSpace c) s"
proof (induction s rule: breakAfterSentences.induct)
  case 1
  then show ?case by simp
next
  case (2 c cs)
  show ?case
  proof (cases "isSentenceEnd c")
    case False
    with 2 show ?thesis by simp
  next
    case True
    show ?thesis
    proof (cases "dropWhile isWhiteSpace cs")
      case Nil
      then show ?thesis
        using "2.IH"(1) [OF True Nil] by (simp add: breakAfterSentences_end del: breakAfterSentences.simps)
    next
      case (Cons d ds)
      have cs: "filter (\<lambda>c. \<not> isWhiteSpace c) cs = filter (\<lambda>c. \<not> isWhiteSpace c) (d # ds)"
        using filter_dropWhile_units [of cs] Cons by simp
      show ?thesis
      proof (cases "isUpperAZ d")
        case False
        then show ?thesis
          using "2.IH"(3) [OF True Cons False]
          by (simp add: breakAfterSentences_other [OF Cons False] del: breakAfterSentences.simps)
      next
        case up: True
        then have "\<not> isWhiteSpace d"
          by (rule upper_not_space)
        then show ?thesis
          using "2.IH"(2) [OF True Cons up] cs
          by (simp add: breakAfterSentences_break [OF True Cons up] del: breakAfterSentences.simps)
      qed
    qed
  qed
qed

lemma cleanText_units:
  "filter (\<lambda>c. \<not> isWhiteSpace c) (cleanText s) = filter (\<lambda>c. \<not> isWhiteSpace c) s"
  by (simp add: cleanText_scan breakAfterSentences_units collapseWhitespace_units trim_units)

lemma concat_wordsFrom:
  "concat (wordsFrom acc s) = rev acc @ filter (\<lambda>c. \<not> isWhiteSpace c) s"
  by (induction s arbitrary: acc) auto

lemma concat_wordsOf: "concat (wordsOf s) = filter (\<lambda>c. \<not> isWhiteSpace c) s"
  by (simp add: wordsOf_def concat_wordsFrom)

lemma slidesBeforeEnding_words:
  assumes num: "toNumber (minWordsPerSlide (mergeOptions DEFAULT_OPTIONS options)) \<noteq> NaN"
  shows "concat (map wordsOf (slidesBeforeEnding input options)) = wordsOf (cleanText input)"
proof -
  have empty: "wordsOf (cleanText input) = []" if "trim input = []"
  proof -
    have "filter (\<lambda>c. \<not> isWhiteSpace c) (cleanText input) = filter (\<lambda>c. \<not> isWhiteSpace c) (trim input)"
      by (simp add: cleanText_units trim_units)
    with that have "\<forall>c \<in> set (cleanText input). isWhiteSpace c"
      by (simp add: filter_empty_conv)
    then show ?thesis
      by (simp add: wordsOf_def wordsFrom_spaces)
  qed
  show ?thesis
  proof (cases "trim input = []")
    case True
    then show ?thesis
      by (simp add: slidesBeforeEnding_def empty)
  next
    case False
    show ?thesis
    proof (cases "sentencesOf input = []")
      case True
      then have "wordsOf (cleanText input) = []"
        using sentencesOf_words [of input] by simp
      with True False show ?thesis
        by (simp add: slidesBeforeEnding_def)
    next
      case ne: False
      with False show ?thesis
        by (simp add: slidesBeforeEnding_def Let_def keptSlides_words [OF num] collectSlides_words
            sentencesOf_words)
    qed
  qed
qed

lemma splitTextIntoSlides_endings:
  "splitTextIntoSlides input options = map ensureEnding (slidesBeforeEnding input options)"
  by (simp add: splitTextIntoSlides_def slidesBeforeEnding_def postProcessSlides_def Let_def)

lemma ensureEnding_cases: "ensureEnding s = s \<or> ensureEnding s = s @ [FULLSTOP]"
  by (simp add: ensureEnding_scan)

text \<open>Where the sentence pattern cuts no word, the cleaned text has the words of the input.\<close>

lemma wordsFrom_after_spaces:
  "v \<noteq> [] \<Longrightarrow> \<forall>c \<in> set v. isWhiteSpace c \<Longrightarrow>
   wordsFrom acc (v @ s) = (if acc = [] then [] else [rev acc]) @ wordsFrom [] s"
  by (cases v) (simp_all add: wordsFrom_skip_spaces)

lemma noBreakInsideWord_tail: "noBreakInsideWord (c # cs) \<Longrightarrow> noBreakInsideWord cs"
  by (cases cs) simp_all

lemma noBreakInsideWord_dropWhile:
  "noBreakInsideWord s \<Longrightarrow> noBreakInsideWord (dropWhile P s)"
  by (induction s) (auto dest: noBreakInsideWord_tail)

lemma breakAfterSentences_words:
  "noBreakInsideWord s \<Longrightarrow> wordsFrom acc (breakAfterSentences s) = wordsFrom acc s"
proof (induction s arbitrary: acc rule: breakAfterSentences.induct)
  case 1
  then show ?case by simp
next
  case (2 c cs)
  from "2.prems" have tail: "noBreakInsideWord cs"
    by (rule noBreakInsideWord_tail)
  show ?case
  proof (cases "isSentenceEnd c")
    case False
    with 2 tail show ?thesis by simp
  next
    case True
    then have c: "\<not> isWhiteSpace c"
      by (rule sentenceEnd_not_space)
    show ?thesis
    proof (cases "dropWhile isWhiteSpace cs")
      case Nil
      then show ?thesis
        using "2.IH"(1) [OF True Nil tail]
        by (simp add: breakAfterSentences_end c del: breakAfterSentences.simps)
    next
      case (Cons d ds)
      show ?thesis
      proof (cases "isUpperAZ d")
        case False
        then show ?thesis
          using "2.IH"(3) [OF True Cons False tail]
          by (simp add: breakAfterSentences_other [OF Cons False] c del: breakAfterSentences.simps)
      next
        case up: True
        then have d: "\<not> isWhiteSpace d"
          by (rule upper_not_space)
        have "cs \<noteq> d # ds"
          using "2.prems" True up by auto
        with Cons have v: "takeWhile isWhiteSpace cs \<noteq> []"
          by (metis takeWhile_dropWhile_id append_Nil)
        have cs: "cs = takeWhile isWhiteSpace cs @ d # ds"
          using Cons by (metis takeWhile_dropWhile_id)
        have "noBreakInsideWord (d # ds)"
          using tail Cons noBreakInsideWord_dropWhile [of cs isWhiteSpace] by simp
        then have ds: "noBreakInsideWord ds"
          by (rule noBreakInsideWord_tail)
        have "wordsFrom acc (c # cs) = wordsFrom (c # acc) (takeWhile isWhiteSpace cs @ d # ds)"
          using c cs by simp
        also have "\<dots> = [rev (c # acc)] @ wordsFrom [] (d # ds)"
          using v by (subst wordsFrom_after_spaces) (auto dest: set_takeWhileD)
        also have "\<dots> = [rev (c # acc)] @ wordsFrom [d] ds"
          using d by simp
        finally have orig: "wordsFrom acc (c # cs) = [rev (c # acc)] @ wordsFrom [d] ds" .
        have "wordsFrom acc (breakAfterSentences (c # cs)) =
              wordsFrom acc (c # LF # d # breakAfterSentences ds)"
          by (simp only: breakAfterSentences_break [OF True Cons up])
        also have "\<dots> = [rev (c # acc)] @ wordsFrom [d] (breakAfterSentences ds)"
          using c d by simp
        also have "\<dots> = [rev (c # acc)] @ wordsFrom [d] ds"
          using "2.IH"(2) [OF True Cons up ds] by simp
        finally show ?thesis
          using orig by simp
      qed
    qed
  qed
qed

lemma noBreakInsideWord_append:
  "noBreakInsideWord (a @ b) \<Longrightarrow> noBreakInsideWord a \<and> noBreakInsideWord b"
proof (induction a rule: noBreakInsideWord.induct)
  case 1
  then show ?case by simp
next
  case (2 c)
  then show ?case by (auto dest: noBreakInsideWord_tail)
next
  case (3 c d cs)
  then show ?case by simp
qed

lemma noBreakInsideWord_trim: "noBreakInsideWord s \<Longrightarrow> noBreakInsideWord (trim s)"
  by (metis trim_decompose noBreakInsideWord_append)

lemma noBreakInsideWord_Cons:
  "noBreakInsideWord (c # s) \<longleftrightarrow>
     (s \<noteq> [] \<longrightarrow> \<not> (isSentenceEnd c \<and> isUpperAZ (hd s))) \<and> noBreakInsideWord s"
  by (cases s) simp_all

lemma collapseWhitespace_hd:
  "s \<noteq> [] \<Longrightarrow>
   collapseWhitespace s \<noteq> [] \<and> hd (collapseWhitespace s) = (if isWhiteSpace (hd s) then SP else hd s)"
  by (cases s) simp_all

lemma SP_not_upper: "\<not> isUpperAZ SP"
  by (simp add: isUpperAZ_def SP_def)

lemma SP_not_end: "\<not> isSentenceEnd SP"
  by (simp add: isSentenceEnd_def SP_def)

lemma collapseWhitespace_nil: "collapseWhitespace s = [] \<longleftrightarrow> s = []"
  by (cases s) simp_all

lemma noBreakInsideWord_collapse:
  "noBreakInsideWord s \<Longrightarrow> noBreakInsideWord (collapseWhitespace s)"
proof (induction s rule: collapseWhitespace.induct)
  case 1
  then show ?case by simp
next
  case (2 c cs)
  from "2.prems" have tail: "noBreakInsideWord cs"
    by (rule noBreakInsideWord_tail)
  show ?case
  proof (cases "isWhiteSpace c")
    case True
    then have "noBreakInsideWord (collapseWhitespace (dropWhile isWhiteSpace cs))"
      using "2.IH"(1) tail noBreakInsideWord_dropWhile by blast
    with True show ?thesis
      by (simp add: noBreakInsideWord_Cons SP_not_end del: noBreakInsideWord.simps)
  next
    case False
    then have rest: "noBreakInsideWord (collapseWhitespace cs)"
      using "2.IH"(2) tail by blast
    show ?thesis
    proof (cases "cs = []")
      case True
      with False show ?thesis by simp
    next
      case ne: False
      have "hd (collapseWhitespace cs) = (if isWhiteSpace (hd cs) then SP else hd cs)"
        using collapseWhitespace_hd [OF ne] by simp
      moreover have "\<not> (isSentenceEnd c \<and> isUpperAZ (hd cs))"
        using "2.prems" ne by (simp add: noBreakInsideWord_Cons del: noBreakInsideWord.simps)
      ultimately have "\<not> (isSentenceEnd c \<and> isUpperAZ (hd (collapseWhitespace cs)))"
        by (auto simp: SP_not_upper)
      with False rest show ?thesis
        by (simp add: noBreakInsideWord_Cons del: noBreakInsideWord.simps)
    qed
  qed
qed

lemma wordsOf_collapse: "wordsOf (collapseWhitespace s) = wordsOf s"
  by (simp add: wordsOf_def collapseWhitespace_words)

lemma normalized_words: "wordsOf (collapseWhitespace (trim s)) = wordsOf s"
  by (simp add: wordsOf_collapse)

lemma cleanText_words:
  "noBreakInsideWord s \<Longrightarrow> wordsOf (cleanText s) = wordsOf s"
proof -
  assume "noBreakInsideWord s"
  then have "noBreakInsideWord (collapseWhitespace (trim s))"
    by (intro noBreakInsideWord_collapse noBreakInsideWord_trim)
  then have "wordsOf (cleanText s) = wordsOf (collapseWhitespace (trim s))"
    by (simp add: cleanText_scan wordsOf_def breakAfterSentences_words)
  also have "\<dots> = wordsOf s"
    by (rule normalized_words)
  finally show ?thesis .
qed

subsection \<open>No word is lost\<close>

text \<open>
  C3, as the specification states it: the words of the returned slides would contain
  the words of the trimmed, white-space-normalized input. On the text
  \<open>Hello A.B there!\<close> with the default options the program returns the one slide
  \<open>Hello A. B there!\<close>, to which post-processing appends nothing: the word \<open>A.B\<close> of
  the input is cut after its full stop, and is no word of the output.
\<close>

theorem word_cut_at_inner_full_stop:
  "splitTextIntoSlides (js ''Hello A.B there!'')
     \<lparr>maxCharactersOpt = None, respectSentenceBoundariesOpt = None, minWordsPerSlideOpt = None\<rparr>
   = [js ''Hello A. B there!''] \<and>
   slidesBeforeEnding (js ''Hello A.B there!'')
     \<lparr>maxCharactersOpt = None, respectSentenceBoundariesOpt = None, minWordsPerSlideOpt = None\<rparr>
   = [js ''Hello A. B there!''] \<and>
   wordsOf (collapseWhitespace (trim (js ''Hello A.B there!''))) =
     [js ''Hello'', js ''A.B'', js ''there!''] \<and>
   concat (map wordsOf [js ''Hello A. B there!'']) =
     [js ''Hello'', js ''A.'', js ''B'', js ''there!''] \<and>
   \<not> mset [js ''Hello'', js ''A.B'', js ''there!''] \<subseteq>#
       mset [js ''Hello'', js ''A.'', js ''B'', js ''there!'']"
  by code_simp

text \<open>
  The options value matters as well. A key \<open>minWordsPerSlide\<close> that is present and
  holds \<open>undefined\<close> replaces the default in the merged object; \<open>Math.min\<close> of it and 1
  is NaN, no word count is \<open>>=\<close> NaN, and the filter of post-processing keeps no slide:
  every word of the text is dropped. The same holds for the value NaN.
\<close>

lemma undefined_minWords_drops_words:
  "splitTextIntoSlides (js ''One two three. Four five six.'')
     \<lparr>maxCharactersOpt = None, respectSentenceBoundariesOpt = None,
      minWordsPerSlideOpt = Some Undefined\<rparr> = [] \<and>
   splitTextIntoSlides (js ''One two three. Four five six.'')
     \<lparr>maxCharactersOpt = None, respectSentenceBoundariesOpt = None,
      minWordsPerSlideOpt = Some (Value NaN)\<rparr> = [] \<and>
   splitTextIntoSlides (js ''One two three. Four five six.'')
     \<lparr>maxCharactersOpt = None, respectSentenceBoundariesOpt = None, minWordsPerSlideOpt = None\<rparr>
   = [js ''One two three. Four five six.'']"
  by code_simp

text \<open>
  C3, amended. The returned slides are the slides before post-processing's last step,
  each as it is or with one full stop appended, and the cleaned text (the input
  trimmed, its white space collapsed, and a line feed put between a code unit of
  \<open>. ! ?\<close> and an upper-case letter \<open>A\<close>..\<open>Z\<close> that follows it) has the code units of the
  normalized input other than white space, in order. For every input and every options
  value whose \<open>minWordsPerSlide\<close>, after the merge with the defaults, is a number other
  than NaN (the key absent, or present with such a number): the words of the slides,
  in order, are exactly the words of the cleaned text, so no code unit of a word is
  dropped; and where no \<open>. ! ?\<close> of the input is directly followed by an upper-case
  letter, the words of the slides are exactly the words of the trimmed,
  white-space-normalized input, in order: words are only regrouped. For an options
  value whose \<open>minWordsPerSlide\<close> is \<open>undefined\<close> or NaN, no slide is returned.
\<close>

theorem words_regrouped:
  "splitTextIntoSlides input options = map ensureEnding (slidesBeforeEnding input options) \<and>
   (\<forall>s. ensureEnding s = s \<or> ensureEnding s = s @ [FULLSTOP]) \<and>
   concat (wordsOf (cleanText input)) = concat (wordsOf (collapseWhitespace (trim input))) \<and>
   (toNumber (minWordsPerSlide (mergeOptions DEFAULT_OPTIONS options)) \<noteq> NaN \<longrightarrow>
      concat (map wordsOf (slidesBeforeEnding input options)) = wordsOf (cleanText input) \<and>
      (noBreakInsideWord input \<longrightarrow>
         concat (map wordsOf (slidesBeforeEnding input options)) =
         wordsOf (collapseWhitespace (trim input)))) \<and>
   (toNumber (minWordsPerSlide (mergeOptions DEFAULT_OPTIONS options)) = NaN \<longrightarrow>
      splitTextIntoSlides input options = [])"
proof (intro conjI allI impI)
  show "splitTextIntoSlides input options = map ensureEnding (slidesBeforeEnding input options)"
    by (rule splitTextIntoSlides_endings)
  show "ensureEnding s = s \<or> ensureEnding s = s @ [FULLSTOP]" for s
    by (rule ensureEnding_cases)
  show "concat (wordsOf (cleanText input)) = concat (wordsOf (collapseWhitespace (trim input)))"
    by (simp add: concat_wordsOf cleanText_units collapseWhitespace_units trim_units)
  show "concat (map wordsOf (slidesBeforeEnding input options)) = wordsOf (cleanText input)"
    if "toNumber (minWordsPerSlide (mergeOptions DEFAULT_OPTIONS options)) \<noteq> NaN"
    using that by (rule slidesBeforeEnding_words)
  show "concat (map wordsOf (slidesBeforeEnding input options)) =
      wordsOf (collapseWhitespace (trim input))"
    if "toNumber (minWordsPerSlide (mergeOptions DEFAULT_OPTIONS options)) \<noteq> NaN"
      and "noBreakInsideWord input"
    using that by (simp add: slidesBeforeEnding_words cleanText_words normalized_words)
  show "splitTextIntoSlides input options = []"
    if "toNumber (minWordsPerSlide (mergeOptions DEFAULT_OPTIONS options)) = NaN"
    using that
    by (simp add: splitTextIntoSlides_def Let_def postProcessSlides_def keptSlides_NaN)
qed

text \<open>
  A text with sentences, none of them cutting a word: with \<open>minWordsPerSlide\<close> 2 the
  slides have its nine words; with \<open>minWordsPerSlide\<close> \<open>undefined\<close> there is no slide.
\<close>

theorem words_regrouped_witness:
  "toNumber (minWordsPerSlide (mergeOptions DEFAULT_OPTIONS
     \<lparr>maxCharactersOpt = Some (Value (Num 20)), respectSentenceBoundariesOpt = None,
      minWordsPerSlideOpt = Some (Value (Num 2))\<rparr>)) \<noteq> NaN \<and>
   noBreakInsideWord (js ''One two three.  Four five six? seven eight Nine'') \<and>
   concat (map wordsOf (slidesBeforeEnding (js ''One two three.  Four five six? seven eight Nine'')
     \<lparr>maxCharactersOpt = Some (Value (Num 20)), respectSentenceBoundariesOpt = None,
      minWordsPerSlideOpt = Some (Value (Num 2))\<rparr>)) =
   [js ''One'', js ''two'', js ''three.'', js ''Four'', js ''five'', js ''six?'', js ''seven'',
    js ''eight'', js ''Nine''] \<and>
   toNumber (minWordsPerSlide (mergeOptions DEFAULT_OPTIONS
     \<lparr>maxCharactersOpt = Some (Value (Num 20)), respectSentenceBoundariesOpt = None,
      minWordsPerSlideOpt = Some Undefined\<rparr>)) = NaN \<and>
   splitTextIntoSlides (js ''One two three.  Four five six? seven eight Nine'')
     \<lparr>maxCharactersOpt = Some (Value (Num 20)), respectSentenceBoundariesOpt = None,
      minWordsPerSlideOpt = Some Undefined\<rparr> = []"
proof -
  let ?x = "js ''One two three.  Four five six? seven eight Nine''"
  let ?o = "\<lparr>maxCharactersOpt = Some (Value (Num 20)), respectSentenceBoundariesOpt = None,
             minWordsPerSlideOpt = Some (Value (Num 2))\<rparr>"
  let ?u = "\<lparr>maxCharactersOpt = Some (Value (Num 20)), respectSentenceBoundariesOpt = None,
             minWordsPerSlideOpt = Some Undefined\<rparr>"
  have n: "toNumber (minWordsPerSlide (mergeOptions DEFAULT_OPTIONS ?o)) \<noteq> NaN"
    by (simp add: mergeOptions_def)
  have u: "toNumber (minWordsPerSlide (mergeOptions DEFAULT_OPTIONS ?u)) = NaN"
    by (simp add: mergeOptions_def)
  have h: "noBreakInsideWord ?x"
    by code_simp
  have w: "wordsOf (collapseWhitespace (trim ?x)) =
     [js ''One'', js ''two'', js ''three.'', js ''Four'', js ''five'', js ''six?'', js ''seven'',
      js ''eight'', js ''Nine'']"
    by code_simp
  have "toNumber (minWordsPerSlide (mergeOptions DEFAULT_OPTIONS ?o)) \<noteq> NaN \<longrightarrow>
      noBreakInsideWord ?x \<longrightarrow>
      concat (map wordsOf (slidesBeforeEnding ?x ?o)) = wordsOf (collapseWhitespace (trim ?x))"
    using words_regrouped [of ?x ?o] by blast
  with n h have e: "concat (map wordsOf (slidesBeforeEnding ?x ?o)) =
      wordsOf (collapseWhitespace (trim ?x))"
    by blast
  have "toNumber (minWordsPerSlide (mergeOptions DEFAULT_OPTIONS ?u)) = NaN \<longrightarrow>
      splitTextIntoSlides ?x ?u = []"
    using words_regrouped [of ?x ?u] by blast
  with u have d: "splitTextIntoSlides ?x ?u = []"
    by blast
  show ?thesis
    unfolding e w d using n u h by simp
qed

subsection \<open>Every slide has a word\<close>

text \<open>
  C8: for every input and every options value, every slide that
  \<open>splitTextIntoSlides\<close> returns is non-empty, has a code unit that is not white space,
  and has at least one word by the count of the program.
\<close>

theorem slides_nonempty:
  "\<forall>s \<in> set (splitTextIntoSlides input options).
     s \<noteq> [] \<and> (\<exists>c \<in> set s. \<not> isWhiteSpace c) \<and> getWordCount s \<ge> 1"
proof
  fix s assume "s \<in> set (splitTextIntoSlides input options)"
  then obtain t where s: "s = ensureEnding t" and t: "t \<in> set (slidesBeforeEnding input options)"
    by (auto simp: splitTextIntoSlides_endings)
  from t have "t \<in> set (keptSlides (collectSlides (mergeOptions DEFAULT_OPTIONS options) (sentencesOf input))
      (mergeOptions DEFAULT_OPTIONS options))"
    by (auto simp: slidesBeforeEnding_def Let_def split: if_splits)
  then obtain u where "t = trim u" and "trim u \<noteq> []"
    by (auto simp: keptSlides_def)
  then have "\<exists>c \<in> set t. \<not> isWhiteSpace c"
    using trim_nonempty_has_unit [of u] by simp
  moreover have "set t \<subseteq> set s"
    using ensureEnding_cases [of t] s by auto
  ultimately have unit: "\<exists>c \<in> set s. \<not> isWhiteSpace c"
    by blast
  then have "wordsOf s \<noteq> []"
    unfolding wordsOf_def by (rule wordsFrom_has_unit)
  then have "getWordCount s \<ge> 1"
    by (simp add: getWordCount_words Suc_le_eq)
  with unit show "s \<noteq> [] \<and> (\<exists>c \<in> set s. \<not> isWhiteSpace c) \<and> getWordCount s \<ge> 1"
    by auto
qed

text \<open>The slides of a short text: each of the two has a word.\<close>

theorem slides_nonempty_witness:
  "splitTextIntoSlides (js ''Alpha beta gamma delta'')
     \<lparr>maxCharactersOpt = Some (Value (Num 12)), respectSentenceBoundariesOpt = None,
      minWordsPerSlideOpt = Some (Value (Num 1))\<rparr>
   = [js ''Alpha beta'', js ''gamma delta''] \<and>
   js ''Alpha beta'' \<noteq> [] \<and> getWordCount (js ''Alpha beta'') \<ge> 1 \<and>
   js ''gamma delta'' \<noteq> [] \<and> getWordCount (js ''gamma delta'') \<ge> 1"
proof -
  let ?x = "js ''Alpha beta gamma delta''"
  let ?o = "\<lparr>maxCharactersOpt = Some (Value (Num 12)), respectSentenceBoundariesOpt = None,
             minWordsPerSlideOpt = Some (Value (Num 1))\<rparr>"
  have e: "splitTextIntoSlides ?x ?o = [js ''Alpha beta'', js ''gamma delta'']"
    by code_simp
  have "\<forall>s \<in> set [js ''Alpha beta'', js ''gamma delta''].
      s \<noteq> [] \<and> (\<exists>c \<in> set s. \<not> isWhiteSpace c) \<and> getWordCount s \<ge> 1"
    using slides_nonempty [of ?x ?o] unfolding e .
  then show ?thesis
    using e by simp
qed

subsection \<open>The ghost records do not influence the run\<close>

lemma wordStepG_erase: "eraseG (wordStepG M W st w) = wordStep M W (eraseG st) w"
  by (cases st) (simp add: eraseG_def wordStepG_def wordStep_def)

lemma wordLoopG_erase: "eraseG (wordLoopG M W ws st) = wordLoop M W ws (eraseG st)"
  by (induction ws arbitrary: st) (simp_all add: wordStepG_erase)

lemma splitLongSentenceG_erase: "eraseG (splitLongSentenceG s M W) = splitLongSentence s M W"
  by (simp add: splitLongSentenceG_def splitLongSentence_def wordLoopG_erase) (simp add: eraseG_def)

lemma addSentenceG_erase: "eraseG (addSentenceG opts st s) = addSentence opts (eraseG st) s"
  by (cases st) (simp add: eraseG_def addSentenceG_def addSentence_def)

lemma splitIfLongG_erase: "eraseG (splitIfLongG opts st) = splitIfLong opts (eraseG st)"
proof -
  obtain slides cur g where st: "st = (slides, cur, g)"
    by (cases st)
  obtain chunks remainder gr where
    r: "splitLongSentenceG cur (maxCharacters opts) (minWordsPerSlide opts) = (chunks, remainder, gr)"
    by (cases "splitLongSentenceG cur (maxCharacters opts) (minWordsPerSlide opts)")
  have "splitLongSentence cur (maxCharacters opts) (minWordsPerSlide opts) = (map fst chunks, remainder)"
    using splitLongSentenceG_erase [of cur "maxCharacters opts" "minWordsPerSlide opts"]
    by (simp add: r eraseG_def)
  then show ?thesis
    by (simp add: st r eraseG_def splitIfLongG_def splitIfLong_def)
qed

lemma sentenceStepG_erase: "eraseG (sentenceStepG opts st s) = sentenceStep opts (eraseG st) s"
  by (simp add: sentenceStepG_def sentenceStep_def splitIfLongG_erase addSentenceG_erase)

lemma sentenceLoopG_erase: "eraseG (sentenceLoopG opts ss st) = sentenceLoop opts ss (eraseG st)"
  by (induction ss arbitrary: st) (simp_all add: sentenceStepG_erase)

lemma collectSlidesG_erase: "map fst (collectSlidesG opts ss) = collectSlides opts ss"
proof -
  obtain slides cur g where r: "sentenceLoopG opts ss ([], [], noGhost) = (slides, cur, g)"
    by (cases "sentenceLoopG opts ss ([], [], noGhost)")
  have "sentenceLoop opts ss ([], []) = (map fst slides, cur)"
    using sentenceLoopG_erase [of opts ss "([], [], noGhost)"] by (simp add: r eraseG_def)
  then show ?thesis
    by (simp add: collectSlidesG_def collectSlides_def r)
qed

lemma keptSlidesG_erase: "map fst (keptSlidesG slides opts) = keptSlides (map fst slides) opts"
  by (simp add: keptSlidesG_def keptSlides_def filter_map comp_def)

lemma postProcessSlidesG_erase:
  "map fst (postProcessSlidesG slides opts) = postProcessSlides (map fst slides) opts"
  by (simp add: postProcessSlidesG_def postProcessSlides_def comp_def flip: keptSlidesG_erase)

lemma splitTextIntoSlidesG_erase:
  "map fst (splitTextIntoSlidesG input options) = splitTextIntoSlides input options"
  by (simp add: splitTextIntoSlidesG_def splitTextIntoSlides_def Let_def postProcessSlidesG_erase
      collectSlidesG_erase)

subsection \<open>The loops keep every slide within the budget\<close>

text \<open>
  In this part \<open>maxCharacters\<close> is a number other than NaN. Then a test
  \<open>length > maxCharacters\<close> that fails says that the length is within the budget;
  with NaN it fails as well, and says nothing.
\<close>

lemma withinBudget_trim: "withinBudget m (s, g) \<Longrightarrow> withinBudget m (trim s, g)"
  using length_trim_le [of s] by (auto simp: withinBudget_def intro: jsLessEq_mono)

lemma withinBudget_forced [simp]: "withinBudget m (s, g\<lparr>forced := True\<rparr>)"
  by (simp add: withinBudget_def)

lemma withinBudget_start:
  "toNumber M \<noteq> NaN \<Longrightarrow> withinBudget (toNumber M) (w, startGhost M w)"
  by (auto simp: withinBudget_def startGhost_def intro: not_jsGreater_jsLessEq)

lemma withinBudget_short:
  "m \<noteq> NaN \<Longrightarrow> \<not> jsGreater (numOf (length s)) m \<Longrightarrow> withinBudget m (s, g)"
  by (simp add: withinBudget_def not_jsGreater_jsLessEq)

lemma wordStepG_budget:
  assumes num: "toNumber M \<noteq> NaN" and inv: "stateWithinBudget (toNumber M) st"
  shows "stateWithinBudget (toNumber M) (wordStepG M W st w)"
proof -
  let ?m = "toNumber M"
  obtain slides cur g where st: "st = (slides, cur, g)"
    by (cases st)
  from inv st have slides: "list_all (withinBudget ?m) slides"
    and cur: "cur = [] \<or> withinBudget ?m (cur, g)"
    by (simp_all add: stateWithinBudget_def)
  have start: "withinBudget ?m (w, startGhost M w)"
    using num by (rule withinBudget_start)
  show ?thesis
  proof (cases "cur \<noteq> [] \<and> jsGreater (numOf (length (cur @ SP # w))) ?m")
    case True
    with cur have "withinBudget ?m (trim cur, g)"
      by (auto intro: withinBudget_trim)
    with True slides start show ?thesis
      by (simp add: st wordStepG_def stateWithinBudget_def)
  next
    case False
    then have "cur \<noteq> [] \<Longrightarrow> withinBudget ?m (cur @ SP # w, g)"
      using num by (auto intro: withinBudget_short)
    with False slides start show ?thesis
      by (auto simp: st wordStepG_def stateWithinBudget_def)
  qed
qed

lemma wordLoopG_budget:
  "toNumber M \<noteq> NaN \<Longrightarrow> stateWithinBudget (toNumber M) st \<Longrightarrow>
   stateWithinBudget (toNumber M) (wordLoopG M W ws st)"
  by (induction ws arbitrary: st) (simp_all add: wordStepG_budget)

lemma splitLongSentenceG_budget:
  "toNumber M \<noteq> NaN \<Longrightarrow> stateWithinBudget (toNumber M) (splitLongSentenceG s M W)"
  unfolding splitLongSentenceG_def
  by (rule wordLoopG_budget) (simp_all add: stateWithinBudget_def)

lemma addSentenceG_budget:
  "stateWithinBudget m st \<Longrightarrow> list_all (withinBudget m) (fst (addSentenceG opts st s))"
proof -
  assume inv: "stateWithinBudget m st"
  obtain slides cur g where st: "st = (slides, cur, g)"
    by (cases st)
  from inv st have slides: "list_all (withinBudget m) slides"
    and cur: "cur = [] \<or> withinBudget m (cur, g)"
    by (simp_all add: stateWithinBudget_def)
  from cur have "cur \<noteq> [] \<Longrightarrow> withinBudget m (trim cur, g)"
    by (auto intro: withinBudget_trim)
  with slides show ?thesis
    by (simp add: st addSentenceG_def)
qed

lemma splitIfLongG_budget:
  assumes num: "toNumber (maxCharacters opts) \<noteq> NaN"
    and "list_all (withinBudget (toNumber (maxCharacters opts))) (fst st)"
  shows "stateWithinBudget (toNumber (maxCharacters opts)) (splitIfLongG opts st)"
proof -
  let ?M = "maxCharacters opts"
  obtain slides cur g where st: "st = (slides, cur, g)"
    by (cases st)
  obtain chunks remainder gr where
    r: "splitLongSentenceG cur ?M (minWordsPerSlide opts) = (chunks, remainder, gr)"
    by (cases "splitLongSentenceG cur ?M (minWordsPerSlide opts)")
  have "stateWithinBudget (toNumber ?M) (chunks, remainder, gr)"
    using splitLongSentenceG_budget [OF num, of cur "minWordsPerSlide opts"] by (simp add: r)
  with assms show ?thesis
    by (auto simp: st r splitIfLongG_def stateWithinBudget_def intro: withinBudget_short)
qed

lemma sentenceStepG_budget:
  "toNumber (maxCharacters opts) \<noteq> NaN \<Longrightarrow>
   stateWithinBudget (toNumber (maxCharacters opts)) st \<Longrightarrow>
   stateWithinBudget (toNumber (maxCharacters opts)) (sentenceStepG opts st s)"
  unfolding sentenceStepG_def
  by (intro splitIfLongG_budget addSentenceG_budget)

lemma sentenceLoopG_budget:
  "toNumber (maxCharacters opts) \<noteq> NaN \<Longrightarrow>
   stateWithinBudget (toNumber (maxCharacters opts)) st \<Longrightarrow>
   stateWithinBudget (toNumber (maxCharacters opts)) (sentenceLoopG opts ss st)"
  by (induction ss arbitrary: st) (simp_all add: sentenceStepG_budget)

lemma collectSlidesG_budget:
  assumes num: "toNumber (maxCharacters opts) \<noteq> NaN"
  shows "list_all (withinBudget (toNumber (maxCharacters opts))) (collectSlidesG opts ss)"
proof -
  let ?m = "toNumber (maxCharacters opts)"
  obtain slides cur g where r: "sentenceLoopG opts ss ([], [], noGhost) = (slides, cur, g)"
    by (cases "sentenceLoopG opts ss ([], [], noGhost)")
  have "stateWithinBudget ?m (sentenceLoopG opts ss ([], [], noGhost))"
    using num by (rule sentenceLoopG_budget) (simp add: stateWithinBudget_def)
  then have slides: "list_all (withinBudget ?m) slides"
    and cur: "cur = [] \<or> withinBudget ?m (cur, g)"
    by (simp_all add: r stateWithinBudget_def)
  from cur have "trim cur \<noteq> [] \<Longrightarrow> withinBudget ?m (trim cur, g)"
    by (auto intro: withinBudget_trim)
  with slides show ?thesis
    by (simp add: collectSlidesG_def r)
qed

lemma keptSlidesG_budget:
  "list_all (withinBudget m) slides \<Longrightarrow> list_all (withinBudget m) (keptSlidesG slides opts)"
  by (auto simp: keptSlidesG_def list_all_iff intro: withinBudget_trim)

lemma length_ensureEnding: "length (ensureEnding s) \<le> length s + 1"
  using ensureEnding_cases [of s] by auto

lemma splitTextIntoSlidesG_budget:
  assumes num: "toNumber (maxCharacters (mergeOptions DEFAULT_OPTIONS options)) \<noteq> NaN"
    and "p \<in> set (splitTextIntoSlidesG input options)"
  shows "\<exists>t. fst p = ensureEnding t \<and>
    withinBudget (toNumber (maxCharacters (mergeOptions DEFAULT_OPTIONS options))) (t, snd p)"
proof -
  let ?opts = "mergeOptions DEFAULT_OPTIONS options"
  from assms have "p \<in> set (postProcessSlidesG (collectSlidesG ?opts (sentencesOf input)) ?opts)"
    by (auto simp: splitTextIntoSlidesG_def Let_def split: if_splits)
  then obtain q where q: "q \<in> set (keptSlidesG (collectSlidesG ?opts (sentencesOf input)) ?opts)"
    and p: "p = (ensureEnding (fst q), snd q)"
    by (auto simp: postProcessSlidesG_def)
  have "list_all (withinBudget (toNumber (maxCharacters ?opts)))
      (keptSlidesG (collectSlidesG ?opts (sentencesOf input)) ?opts)"
    using num by (intro keptSlidesG_budget collectSlidesG_budget)
  with q have "withinBudget (toNumber (maxCharacters ?opts)) q"
    by (simp add: list_all_iff)
  with p show ?thesis
    by auto
qed

subsection \<open>The character budget\<close>

text \<open>
  C2, as the specification states it: with \<open>maxCharacters > 0\<close> and
  \<open>minWordsPerSlide >= 1\<close>, a returned slide would be longer than \<open>maxCharacters\<close> only
  after a force-merge below \<open>minWordsPerSlide\<close>. With \<open>maxCharacters = 14\<close> and
  \<open>minWordsPerSlide = 1\<close> the text of five words of four letters gives a first chunk
  of exactly 14 code units, with no force-merge and no long word; post-processing
  appends a full stop, and the returned slide has 15.
\<close>

theorem full_stop_exceeds_budget:
  "jsGreater (Num 14) (Num 0) \<and> jsGreaterEq (Num 1) (Num 1) \<and>
   splitTextIntoSlides (js ''aaaa bbbb cccc dddd eeee'')
     \<lparr>maxCharactersOpt = Some (Value (Num 14)), respectSentenceBoundariesOpt = None,
      minWordsPerSlideOpt = Some (Value (Num 1))\<rparr>
   = [js ''aaaa bbbb cccc.'', js ''dddd eeee''] \<and>
   splitTextIntoSlidesG (js ''aaaa bbbb cccc dddd eeee'')
     \<lparr>maxCharactersOpt = Some (Value (Num 14)), respectSentenceBoundariesOpt = None,
      minWordsPerSlideOpt = Some (Value (Num 1))\<rparr>
   = [(js ''aaaa bbbb cccc.'', \<lparr>forced = False, longWord = False\<rparr>),
      (js ''dddd eeee'', \<lparr>forced = False, longWord = False\<rparr>)] \<and>
   jsGreater (numOf (length (js ''aaaa bbbb cccc.''))) (Num 14)"
  by code_simp

text \<open>
  A slide is longer than the budget also where the word-level split starts it with a
  single piece longer than \<open>maxCharacters\<close> and the next word pushes it: with
  \<open>minWordsPerSlide = 1\<close> its one word is enough, and there is no force-merge.
\<close>

lemma long_word_exceeds_budget:
  "splitTextIntoSlidesG (js ''abcdefghijkl mn op'')
     \<lparr>maxCharactersOpt = Some (Value (Num 5)), respectSentenceBoundariesOpt = None,
      minWordsPerSlideOpt = Some (Value (Num 1))\<rparr>
   = [(js ''abcdefghijkl'', \<lparr>forced = False, longWord = True\<rparr>),
      (js ''mn op'', \<lparr>forced = False, longWord = False\<rparr>)] \<and>
   jsGreater (numOf (length (js ''abcdefghijkl''))) (Num 5)"
  by code_simp

text \<open>
  The hypothesis on \<open>maxCharacters\<close> is needed. A key \<open>maxCharacters\<close> that is present
  and holds \<open>undefined\<close> replaces the default 130 in the merged object; every test
  \<open>length > maxCharacters\<close> is then false, nothing is pushed or split, and the whole
  text comes back as one slide, with no force-merge and no long word. With the key
  absent the same text gives two slides.
\<close>

lemma undefined_maxCharacters_no_budget:
  "map (\<lambda>p. (length (fst p), snd p))
     (splitTextIntoSlidesG
        (js (''The first sentence of this text has nine words. '' @
             ''The second sentence of this text has nine words. '' @
             ''The third sentence of this text has nine words.''))
        \<lparr>maxCharactersOpt = Some Undefined, respectSentenceBoundariesOpt = None,
         minWordsPerSlideOpt = None\<rparr>)
   = [(144, \<lparr>forced = False, longWord = False\<rparr>)] \<and>
   map (\<lambda>p. (length (fst p), snd p))
     (splitTextIntoSlidesG
        (js (''The first sentence of this text has nine words. '' @
             ''The second sentence of this text has nine words. '' @
             ''The third sentence of this text has nine words.''))
        \<lparr>maxCharactersOpt = None, respectSentenceBoundariesOpt = None,
         minWordsPerSlideOpt = None\<rparr>)
   = [(96, \<lparr>forced = False, longWord = False\<rparr>), (47, \<lparr>forced = False, longWord = False\<rparr>)]"
  by code_simp

text \<open>
  C2, amended. For every input and every options value with \<open>maxCharacters > 0\<close> and
  \<open>minWordsPerSlide >= 1\<close> after the merge with the defaults (the comparisons of the
  program: they fail for \<open>undefined\<close> and NaN), every returned slide has at most
  \<open>maxCharacters + 1\<close> code units, and at most \<open>maxCharacters\<close> before post-processing
  appends its full stop, unless the slide was force-merged (adding to it would exceed
  the budget while its word count was not \<open>>= minWordsPerSlide\<close>) or the word-level
  split started it with a single piece longer than \<open>maxCharacters\<close>. The length of a
  slide is a natural number, so \<open>length - 1 \<le> maxCharacters\<close> states
  \<open>length \<le> maxCharacters + 1\<close>.
\<close>

theorem character_budget:
  assumes "jsGreater (toNumber (maxCharacters (mergeOptions DEFAULT_OPTIONS options))) (Num 0)"
    and "jsGreaterEq (toNumber (minWordsPerSlide (mergeOptions DEFAULT_OPTIONS options))) (Num 1)"
  shows "map fst (splitTextIntoSlidesG input options) = splitTextIntoSlides input options \<and>
   (\<forall>p \<in> set (splitTextIntoSlidesG input options).
      forced (snd p) \<or> longWord (snd p) \<or>
      (jsLessEq (numOf (length (fst p) - 1))
         (toNumber (maxCharacters (mergeOptions DEFAULT_OPTIONS options))) \<and>
       (\<exists>t. fst p = ensureEnding t \<and>
            jsLessEq (numOf (length t))
              (toNumber (maxCharacters (mergeOptions DEFAULT_OPTIONS options))))))"
proof (intro conjI ballI)
  show "map fst (splitTextIntoSlidesG input options) = splitTextIntoSlides input options"
    by (rule splitTextIntoSlidesG_erase)
next
  let ?m = "toNumber (maxCharacters (mergeOptions DEFAULT_OPTIONS options))"
  fix p assume "p \<in> set (splitTextIntoSlidesG input options)"
  moreover have "?m \<noteq> NaN"
    using assms(1) by (rule jsGreater_not_NaN)
  ultimately obtain t where t: "fst p = ensureEnding t" and b: "withinBudget ?m (t, snd p)"
    using splitTextIntoSlidesG_budget by blast
  show "forced (snd p) \<or> longWord (snd p) \<or>
      (jsLessEq (numOf (length (fst p) - 1)) ?m \<and>
       (\<exists>t. fst p = ensureEnding t \<and> jsLessEq (numOf (length t)) ?m))"
  proof (cases "forced (snd p) \<or> longWord (snd p)")
    case True
    then show ?thesis by blast
  next
    case False
    with b have len: "jsLessEq (numOf (length t)) ?m"
      by (simp add: withinBudget_def)
    moreover have "length (fst p) - 1 \<le> length t"
      using length_ensureEnding [of t] t by simp
    ultimately have "jsLessEq (numOf (length (fst p) - 1)) ?m"
      by (rule jsLessEq_mono)
    with len t show ?thesis
      by blast
  qed
qed

text \<open>
  A run with every kind of slide: the first is force-merged (one word, then a word that
  does not fit), the second and the fourth are within the budget of 6, the third starts
  with a piece of 12 code units and is then force-merged.
\<close>

theorem character_budget_witness:
  "jsGreater (toNumber (maxCharacters (mergeOptions DEFAULT_OPTIONS
     \<lparr>maxCharactersOpt = Some (Value (Num 6)), respectSentenceBoundariesOpt = None,
      minWordsPerSlideOpt = Some (Value (Num 2))\<rparr>))) (Num 0) \<and>
   jsGreaterEq (toNumber (minWordsPerSlide (mergeOptions DEFAULT_OPTIONS
     \<lparr>maxCharactersOpt = Some (Value (Num 6)), respectSentenceBoundariesOpt = None,
      minWordsPerSlideOpt = Some (Value (Num 2))\<rparr>))) (Num 1) \<and>
   splitTextIntoSlidesG (js ''aa bbbbb cc dd eeeeeeeeeeee ff gg'')
     \<lparr>maxCharactersOpt = Some (Value (Num 6)), respectSentenceBoundariesOpt = None,
      minWordsPerSlideOpt = Some (Value (Num 2))\<rparr>
   = [(js ''aa bbbbb'', \<lparr>forced = True, longWord = False\<rparr>),
      (js ''cc dd'', \<lparr>forced = False, longWord = False\<rparr>),
      (js ''eeeeeeeeeeee ff'', \<lparr>forced = True, longWord = True\<rparr>),
      (js ''gg'', \<lparr>forced = False, longWord = False\<rparr>)] \<and>
   jsLessEq (numOf (length (js ''cc dd'') - 1)) (Num 6) \<and>
   jsLessEq (numOf (length (js ''gg'') - 1)) (Num 6)"
proof -
  let ?x = "js ''aa bbbbb cc dd eeeeeeeeeeee ff gg''"
  let ?o = "\<lparr>maxCharactersOpt = Some (Value (Num 6)), respectSentenceBoundariesOpt = None,
             minWordsPerSlideOpt = Some (Value (Num 2))\<rparr>"
  have e: "splitTextIntoSlidesG ?x ?o
   = [(js ''aa bbbbb'', \<lparr>forced = True, longWord = False\<rparr>),
      (js ''cc dd'', \<lparr>forced = False, longWord = False\<rparr>),
      (js ''eeeeeeeeeeee ff'', \<lparr>forced = True, longWord = True\<rparr>),
      (js ''gg'', \<lparr>forced = False, longWord = False\<rparr>)]"
    by code_simp
  have m: "toNumber (maxCharacters (mergeOptions DEFAULT_OPTIONS ?o)) = Num 6"
    by (simp add: mergeOptions_def)
  have h1: "jsGreater (toNumber (maxCharacters (mergeOptions DEFAULT_OPTIONS ?o))) (Num 0)"
    by (simp add: mergeOptions_def jsGreater_def)
  have h2: "jsGreaterEq (toNumber (minWordsPerSlide (mergeOptions DEFAULT_OPTIONS ?o))) (Num 1)"
    by (simp add: mergeOptions_def jsGreaterEq_def)
  have "\<forall>p \<in> set (splitTextIntoSlidesG ?x ?o).
      forced (snd p) \<or> longWord (snd p) \<or>
      (jsLessEq (numOf (length (fst p) - 1))
         (toNumber (maxCharacters (mergeOptions DEFAULT_OPTIONS ?o))) \<and>
       (\<exists>t. fst p = ensureEnding t \<and>
            jsLessEq (numOf (length t)) (toNumber (maxCharacters (mergeOptions DEFAULT_OPTIONS ?o)))))"
    using character_budget [OF h1 h2, of ?x] by blast
  then have "jsLessEq (numOf (length (js ''cc dd'') - 1)) (Num 6) \<and>
      jsLessEq (numOf (length (js ''gg'') - 1)) (Num 6)"
    unfolding e m by simp
  with e h1 h2 show ?thesis
    by simp
qed

subsection \<open>Code units of hashtags\<close>

lemma wordUnit_ascii: "isWordUnit c \<Longrightarrow> c < 0x80"
  unfolding isWordUnit_def by (auto simp: word_le_nat_alt word_less_nat_alt)

lemma wordUnit_not_space: "isWordUnit c \<Longrightarrow> \<not> isWhiteSpace c"
  unfolding isWordUnit_def isWhiteSpace_def by (auto simp: word_le_nat_alt)

lemma wordUnit_not_hash: "isWordUnit c \<Longrightarrow> c \<noteq> 0x23"
  unfolding isWordUnit_def by auto

lemma wordUnit_not_cr: "isWordUnit c \<Longrightarrow> c \<noteq> 0x0D"
  unfolding isWordUnit_def by auto

lemma space_not_hash: "isWhiteSpace c \<Longrightarrow> c \<noteq> 0x23"
  unfolding isWhiteSpace_def by auto

lemma unitMatches_tag: "unitMatches True isTagUnit ch \<longleftrightarrow> isWordUnit ch"
  unfolding unitMatches_def isTagUnit_def isWordUnit_def toUpperAscii_def toLowerAscii_def
  by (auto simp: word_le_nat_alt unat_sub unat_plus_if_size word_size)

lemma unitMatches_hash: "unitMatches True (\<lambda>x. x = 0x23) ch \<longleftrightarrow> ch = 0x23"
  unfolding unitMatches_def toUpperAscii_def toLowerAscii_def
  by (auto simp: word_le_nat_alt unat_sub unat_plus_if_size word_size)

subsection \<open>The matcher on the hashtag pattern\<close>

lemma matchAt_reHashtag_Nil: "matchAt True reHashtag pre [] = None"
  by (simp add: matchAt_def reHashtag_def Plus_def)

lemma matchAt_reHashtag:
  "matchAt True reHashtag pre (c # cs) =
     (if c = 0x23 \<and> takeWhile isWordUnit cs \<noteq> []
      then Some (MState (rev (takeWhile isWordUnit cs) @ c # pre) (dropWhile isWordUnit cs) [])
      else None)"
proof (cases "c = 0x23")
  case False
  then show ?thesis
    by (simp add: matchAt_def reHashtag_def Plus_def unitMatches_hash)
next
  case hash: True
  show ?thesis
  proof (cases cs)
    case Nil
    with hash show ?thesis
      by (simp add: matchAt_def reHashtag_def Plus_def unitMatches_hash)
  next
    case (Cons d ds)
    show ?thesis
    proof (cases "isWordUnit d")
      case False
      with hash Cons show ?thesis
        by (simp add: matchAt_def reHashtag_def Plus_def unitMatches_hash unitMatches_tag)
    next
      case True
      obtain others where star:
        "matchRe True (Star True (Cls isTagUnit)) (MState (d # c # pre) ds []) =
         MState (rev (takeWhile (unitMatches True isTagUnit) ds) @ d # c # pre)
           (dropWhile (unitMatches True isTagUnit) ds) [] # others"
        using matchRe_Star_Cls by blast
      have eq: "unitMatches True isTagUnit = isWordUnit"
        by (rule ext) (rule unitMatches_tag)
      have "matchRe True reHashtag (MState pre (c # cs) []) =
         MState (rev (takeWhile isWordUnit ds) @ d # c # pre) (dropWhile isWordUnit ds) [] # others"
        using hash Cons True star
        by (simp add: reHashtag_def Plus_def unitMatches_hash unitMatches_tag eq
            del: matchRe.simps(6))
      with hash Cons True show ?thesis
        by (simp add: matchAt_def)
    qed
  qed
qed

text \<open>The global match of the hashtag pattern returns the tokens of the specification.\<close>

lemma matchAllFrom_reHashtag: "matchAllFrom True reHashtag pre s = hashtagTokens s"
proof (induction s arbitrary: pre rule: hashtagTokens.induct)
  case 1
  then show ?case
    by (simp add: matchAt_reHashtag_Nil)
next
  case (2 c cs)
  show ?case
  proof (cases "c = 0x23 \<and> takeWhile isWordUnit cs \<noteq> []")
    case False
    then have "matchAt True reHashtag pre (c # cs) = None"
      by (simp add: matchAt_reHashtag)
    then have "matchAllFrom True reHashtag pre (c # cs) = matchAllFrom True reHashtag (c # pre) cs"
      by simp
    moreover have "hashtagTokens (c # cs) = hashtagTokens cs"
      using False by auto
    ultimately show ?thesis
      using "2.IH"(2) [OF False] by simp
  next
    case True
    let ?st = "MState (rev (takeWhile isWordUnit cs) @ c # pre) (dropWhile isWordUnit cs) []"
    from True have m: "matchAt True reHashtag pre (c # cs) = Some ?st"
      by (simp add: matchAt_reHashtag)
    have shorter: "length (remaining ?st) < length (c # cs)"
      by (simp add: le_imp_less_Suc length_dropWhile_le)
    have "matchedText (c # cs) ?st = c # takeWhile isWordUnit cs"
      by (simp add: matchedText_def Suc_diff_le length_dropWhile_le length_takeWhile_drop
          take_takeWhile)
    with True m shorter "2.IH"(1) [OF True] show ?thesis
      by simp
  qed
qed

subsection \<open>Normalizing a text keeps its hashtag tokens\<close>

lemma matchAt_reLineEnd_Nil: "matchAt False reLineEnd pre [] = None"
  by (simp add: matchAt_def reLineEnd_def)

lemma matchAt_reLineEnd_other:
  "c \<noteq> 0x0D \<Longrightarrow> matchAt False reLineEnd pre (c # cs) = None"
  by (simp add: matchAt_def reLineEnd_def unitMatches_def)

lemma matchAt_reLineEnd_crlf:
  "matchAt False reLineEnd pre (0x0D # 0x0A # ds) = Some (MState (0x0A # 0x0D # pre) ds [])"
  by (simp add: matchAt_def reLineEnd_def unitMatches_def)

lemma matchAt_reLineEnd_cr:
  "cs = [] \<or> hd cs \<noteq> 0x0A \<Longrightarrow>
   matchAt False reLineEnd pre (0x0D # cs) = Some (MState (0x0D # pre) cs [])"
  by (cases cs) (auto simp: matchAt_def reLineEnd_def unitMatches_def)

lemma lineEnds_other:
  "c \<noteq> 0x0D \<Longrightarrow>
   replaceAllFrom False reLineEnd [Lit [LF]] pre (c # cs) = c # replaceAllFrom False reLineEnd [Lit [LF]] (c # pre) cs"
  by (simp add: matchAt_reLineEnd_other)

lemma lineEnds_crlf:
  "replaceAllFrom False reLineEnd [Lit [LF]] pre (0x0D # 0x0A # ds) =
   LF # replaceAllFrom False reLineEnd [Lit [LF]] (0x0A # 0x0D # pre) ds"
  by (simp add: matchAt_reLineEnd_crlf)

lemma lineEnds_cr:
  "cs = [] \<or> hd cs \<noteq> 0x0A \<Longrightarrow>
   replaceAllFrom False reLineEnd [Lit [LF]] pre (0x0D # cs) =
   LF # replaceAllFrom False reLineEnd [Lit [LF]] (0x0D # pre) cs"
  by (simp add: matchAt_reLineEnd_cr)

lemma LF_not_wordUnit: "\<not> isWordUnit LF"
  by (simp add: isWordUnit_def LF_def)

lemma LF_not_hash: "LF \<noteq> 0x23"
  by (simp add: LF_def)

lemma lineEnds_run:
  "\<forall>x \<in> set a. isWordUnit x \<Longrightarrow>
   replaceAllFrom False reLineEnd [Lit [LF]] pre (a @ b) =
   a @ replaceAllFrom False reLineEnd [Lit [LF]] (rev a @ pre) b"
proof (induction a arbitrary: pre)
  case Nil
  then show ?case by simp
next
  case (Cons x a)
  then have "x \<noteq> 0x0D"
    by (auto dest: wordUnit_not_cr)
  with Cons show ?case
    by (simp add: lineEnds_other del: replaceAllFrom.simps)
qed

lemma lineEnds_first:
  "b = [] \<or> \<not> isWordUnit (hd b) \<Longrightarrow>
   takeWhile isWordUnit (replaceAllFrom False reLineEnd [Lit [LF]] pre b) = []"
proof (cases b)
  case Nil
  then show ?thesis
    by (simp add: matchAt_reLineEnd_Nil)
next
  case (Cons d ds)
  assume "b = [] \<or> \<not> isWordUnit (hd b)"
  with Cons have d: "\<not> isWordUnit d"
    by simp
  show ?thesis
  proof (cases "d = 0x0D")
    case False
    with d Cons show ?thesis
      by (simp add: lineEnds_other del: replaceAllFrom.simps)
  next
    case True
    show ?thesis
    proof (cases "ds = [] \<or> hd ds \<noteq> 0x0A")
      case True
      with \<open>d = 0x0D\<close> Cons show ?thesis
        by (simp add: lineEnds_cr LF_not_wordUnit del: replaceAllFrom.simps)
    next
      case False
      then obtain es where "ds = 0x0A # es"
        by (cases ds) auto
      with \<open>d = 0x0D\<close> Cons show ?thesis
        by (simp add: lineEnds_crlf LF_not_wordUnit del: replaceAllFrom.simps)
    qed
  qed
qed

lemma dropWhile_first: "dropWhile P xs = [] \<or> \<not> P (hd (dropWhile P xs))"
  by (metis hd_dropWhile)

lemma lineEnds_split:
  "\<exists>pre'. replaceAllFrom False reLineEnd [Lit [LF]] pre cs =
     takeWhile isWordUnit cs @ replaceAllFrom False reLineEnd [Lit [LF]] pre' (dropWhile isWordUnit cs) \<and>
     takeWhile isWordUnit (replaceAllFrom False reLineEnd [Lit [LF]] pre' (dropWhile isWordUnit cs)) = []"
proof -
  let ?a = "takeWhile isWordUnit cs" and ?b = "dropWhile isWordUnit cs"
  have "replaceAllFrom False reLineEnd [Lit [LF]] pre (?a @ ?b) =
      ?a @ replaceAllFrom False reLineEnd [Lit [LF]] (rev ?a @ pre) ?b"
    by (rule lineEnds_run) (auto dest: set_takeWhileD)
  moreover have "takeWhile isWordUnit (replaceAllFrom False reLineEnd [Lit [LF]] (rev ?a @ pre) ?b) = []"
    by (rule lineEnds_first) (rule dropWhile_first)
  ultimately show ?thesis
    by auto
qed

lemma takeWhile_run:
  "\<forall>x \<in> set a. P x \<Longrightarrow> takeWhile P y = [] \<Longrightarrow> takeWhile P (a @ y) = a"
  by (induction a) auto

lemma dropWhile_run:
  "\<forall>x \<in> set a. P x \<Longrightarrow> takeWhile P y = [] \<Longrightarrow> dropWhile P (a @ y) = y"
  by (induction a) (auto simp: takeWhile_eq_Nil_iff dropWhile_eq_self_iff)

lemma lineEnds_tokens:
  "hashtagTokens (replaceAllFrom False reLineEnd [Lit [LF]] pre s) = hashtagTokens s"
proof (induction "length s" arbitrary: s pre rule: less_induct)
  case less
  show ?case
  proof (cases s)
    case Nil
    then show ?thesis
      by (simp add: matchAt_reLineEnd_Nil)
  next
    case (Cons c cs)
    show ?thesis
    proof (cases "c = 0x0D")
      case cr: True
      show ?thesis
      proof (cases "cs = [] \<or> hd cs \<noteq> 0x0A")
        case True
        have "hashtagTokens (replaceAllFrom False reLineEnd [Lit [LF]] (0x0D # pre) cs) = hashtagTokens cs"
          using less [of cs] Cons by simp
        with True cr Cons show ?thesis
          by (simp add: lineEnds_cr LF_not_hash del: replaceAllFrom.simps)
      next
        case False
        then obtain ds where ds: "cs = 0x0A # ds"
          by (cases cs) auto
        have "hashtagTokens (replaceAllFrom False reLineEnd [Lit [LF]] (0x0A # 0x0D # pre) ds) = hashtagTokens ds"
          using less [of ds] Cons ds by simp
        with cr Cons ds show ?thesis
          by (simp add: lineEnds_crlf LF_not_hash del: replaceAllFrom.simps)
      qed
    next
      case other: False
      have step: "replaceAllFrom False reLineEnd [Lit [LF]] pre s =
          c # replaceAllFrom False reLineEnd [Lit [LF]] (c # pre) cs"
        using other Cons by (simp add: lineEnds_other del: replaceAllFrom.simps)
      have ih: "hashtagTokens (replaceAllFrom False reLineEnd [Lit [LF]] (c # pre) cs) = hashtagTokens cs"
        using less [of cs] Cons by simp
      show ?thesis
      proof (cases "c = 0x23")
        case False
        with step ih Cons show ?thesis
          by simp
      next
        case hash: True
        let ?a = "takeWhile isWordUnit cs" and ?b = "dropWhile isWordUnit cs"
        obtain pre' where
          split: "replaceAllFrom False reLineEnd [Lit [LF]] (c # pre) cs =
            ?a @ replaceAllFrom False reLineEnd [Lit [LF]] pre' ?b"
          and first: "takeWhile isWordUnit (replaceAllFrom False reLineEnd [Lit [LF]] pre' ?b) = []"
          using lineEnds_split by blast
        have units: "\<forall>x \<in> set ?a. isWordUnit x"
          by (auto dest: set_takeWhileD)
        have run: "takeWhile isWordUnit (replaceAllFrom False reLineEnd [Lit [LF]] (c # pre) cs) = ?a"
          "dropWhile isWordUnit (replaceAllFrom False reLineEnd [Lit [LF]] (c # pre) cs) =
             replaceAllFrom False reLineEnd [Lit [LF]] pre' ?b"
          unfolding split
          by (rule takeWhile_run [OF units first], rule dropWhile_run [OF units first])
        show ?thesis
        proof (cases "?a = []")
          case True
          with run step ih Cons hash show ?thesis
            by simp
        next
          case False
          have "length ?b < length s"
            using Cons by (simp add: le_imp_less_Suc length_dropWhile_le)
          then have "hashtagTokens (replaceAllFrom False reLineEnd [Lit [LF]] pre' ?b) = hashtagTokens ?b"
            by (rule less)
          with False run step Cons hash show ?thesis
            by simp
        qed
      qed
    qed
  qed
qed

lemma tokens_skip_spaces:
  "\<forall>x \<in> set a. isWhiteSpace x \<Longrightarrow> hashtagTokens (a @ t) = hashtagTokens t"
  by (induction a) (auto dest: space_not_hash)

lemma units_then_spaces:
  "\<forall>x \<in> set b. isWhiteSpace x \<Longrightarrow>
   takeWhile isWordUnit (cs @ b) = takeWhile isWordUnit cs \<and>
   dropWhile isWordUnit (cs @ b) = dropWhile isWordUnit cs @ b"
proof (induction cs)
  case Nil
  then have "takeWhile isWordUnit b = []"
    by (cases b) (auto dest: wordUnit_not_space)
  then show ?case
    by (simp add: dropWhile_eq_self_iff takeWhile_eq_Nil_iff)
next
  case (Cons c cs)
  then show ?case
    by simp
qed

lemma tokens_before_spaces:
  "\<forall>x \<in> set b. isWhiteSpace x \<Longrightarrow> hashtagTokens (t @ b) = hashtagTokens t"
proof (induction t rule: hashtagTokens.induct)
  case 1
  then show ?case
    using tokens_skip_spaces [of b "[]"] by simp
next
  case (2 c cs)
  have run: "takeWhile isWordUnit (cs @ b) = takeWhile isWordUnit cs"
    "dropWhile isWordUnit (cs @ b) = dropWhile isWordUnit cs @ b"
    using units_then_spaces [OF "2.prems"] by simp_all
  show ?case
  proof (cases "c = 0x23 \<and> takeWhile isWordUnit cs \<noteq> []")
    case True
    with run "2.IH"(1) [OF True "2.prems"] show ?thesis
      by simp
  next
    case False
    have "hashtagTokens ((c # cs) @ b) = hashtagTokens (cs @ b)"
      using False run by auto
    moreover have "hashtagTokens (c # cs) = hashtagTokens cs"
      using False by auto
    ultimately show ?thesis
      using "2.IH"(2) [OF False "2.prems"] by simp
  qed
qed

lemma trim_tokens: "hashtagTokens (trim s) = hashtagTokens s"
proof -
  obtain a b where s: "s = a @ trim s @ b"
    and a: "\<forall>c \<in> set a. isWhiteSpace c" and b: "\<forall>c \<in> set b. isWhiteSpace c"
    using trim_decompose by blast
  have "hashtagTokens s = hashtagTokens (a @ (trim s @ b))"
    using s by simp
  also have "\<dots> = hashtagTokens (trim s @ b)"
    using a by (rule tokens_skip_spaces)
  also have "\<dots> = hashtagTokens (trim s)"
    using b by (rule tokens_before_spaces)
  finally show ?thesis
    by simp
qed

lemma normalize_tokens: "hashtagTokens (normalize s) = hashtagTokens s"
  by (simp add: normalize_def trim_tokens lineEnds_tokens)

subsection \<open>The tags of the heuristics\<close>

lemma heuristics_tags:
  "tags (heuristics lc input) = Some (dedupe [] (map lc (hashtagTokens input)))"
  by (simp add: heuristics_def Let_def matchAllFrom_reHashtag normalize_tokens)

lemma token_ascii: "t \<in> set (hashtagTokens s) \<Longrightarrow> \<forall>c \<in> set t. c < 0x80"
proof (induction s rule: hashtagTokens.induct)
  case 1
  then show ?case by simp
next
  case (2 c cs)
  show ?case
  proof (cases "c = 0x23 \<and> takeWhile isWordUnit cs \<noteq> []")
    case True
    have "\<forall>x \<in> set (c # takeWhile isWordUnit cs). x < 0x80"
      using True by (auto dest!: set_takeWhileD wordUnit_ascii)
    with True 2 show ?thesis
      by auto
  next
    case False
    then have "hashtagTokens (c # cs) = hashtagTokens cs"
      by auto
    with False 2 show ?thesis
      by simp
  qed
qed

lemma lowersAscii_tokens:
  "lowersAscii lc \<Longrightarrow> map lc (hashtagTokens s) = map lowerAsciiString (hashtagTokens s)"
  by (simp add: lowersAscii_def token_ascii)

lemma dedupe_set: "set (dedupe seen xs) = set xs - set seen"
  by (induction xs arbitrary: seen) auto

lemma dedupe_distinct: "distinct (dedupe seen xs)"
  by (induction xs arbitrary: seen) (auto simp: dedupe_set)

text \<open>
  C9: on the heuristic path (the labeled extraction yields no non-empty title, body or
  visual), and with a \<open>toLowerCase\<close> that lowers \<open>A\<close>..\<open>Z\<close> on strings of code units
  below 128, the tags of \<open>analyzeContent\<close> are the hashtag tokens of the text (a \<open>#\<close>
  followed by letters, digits and underscores), each lower-cased, with every token kept
  once, at its first place: the list has no duplicate and holds exactly the lower-cased
  tokens. On the text of the specification the tags are \<open>#ai\<close> and \<open>#productivity\<close>.
\<close>

theorem heuristic_tags:
  "lowersAscii lc \<Longrightarrow>
   (\<not> hasAnyLabel (extractLabeled input) \<longrightarrow>
      tags (analyzeContent lc input) =
        Some (dedupe [] (map lowerAsciiString (hashtagTokens input))) \<and>
      distinct (dedupe [] (map lowerAsciiString (hashtagTokens input))) \<and>
      set (dedupe [] (map lowerAsciiString (hashtagTokens input))) =
        lowerAsciiString ` set (hashtagTokens input)) \<and>
   tags (analyzeContent lc (js ''Great tips #AI #ai #productivity'')) =
     Some [js ''#ai'', js ''#productivity'']"
proof -
  assume lc: "lowersAscii lc"
  have general: "tags (analyzeContent lc s) =
      Some (dedupe [] (map lowerAsciiString (hashtagTokens s)))"
    if "\<not> hasAnyLabel (extractLabeled s)" for s
    using that lc by (simp add: analyzeContent_def heuristics_tags lowersAscii_tokens)
  have path: "\<not> hasAnyLabel (extractLabeled (js ''Great tips #AI #ai #productivity''))"
    by code_simp
  have toks: "dedupe [] (map lowerAsciiString
      (hashtagTokens (js ''Great tips #AI #ai #productivity''))) =
      [js ''#ai'', js ''#productivity'']"
    by code_simp
  show ?thesis
    using general [of input] general [OF path]
    by (simp add: toks dedupe_distinct dedupe_set)
qed

text \<open>
  A text with one tag in three spellings and a tag with a digit and an underscore,
  analyzed with the lower-casing of the code units below 128.
\<close>

theorem heuristic_tags_witness:
  "lowersAscii lowerAsciiString \<and>
   \<not> hasAnyLabel (extractLabeled (js ''Ship it #Done #done_2 #DONE now'')) \<and>
   tags (analyzeContent lowerAsciiString (js ''Ship it #Done #done_2 #DONE now'')) =
     Some [js ''#done'', js ''#done_2'']"
proof -
  let ?x = "js ''Ship it #Done #done_2 #DONE now''"
  have lc: "lowersAscii lowerAsciiString"
    by (simp add: lowersAscii_def)
  have path: "\<not> hasAnyLabel (extractLabeled ?x)"
    by code_simp
  have toks: "dedupe [] (map lowerAsciiString (hashtagTokens ?x)) = [js ''#done'', js ''#done_2'']"
    by code_simp
  have "\<not> hasAnyLabel (extractLabeled ?x) \<longrightarrow>
      tags (analyzeContent lowerAsciiString ?x) =
        Some (dedupe [] (map lowerAsciiString (hashtagTokens ?x)))"
    using heuristic_tags [OF lc, of ?x] by blast
  with path have "tags (analyzeContent lowerAsciiString ?x) =
      Some (dedupe [] (map lowerAsciiString (hashtagTokens ?x)))"
    by blast
  with lc path show ?thesis
    unfolding toks by simp
qed

subsection \<open>The worked example of the splitter\<close>

text \<open>
  C1, as the specification states it: the example text with \<open>maxCharacters = 40\<close> and
  \<open>minWordsPerSlide = 3\<close> would give the three sentences as three slides. The program
  does not: the first sentence has two words, so the second one is merged into its
  slide, the merged slide is over 40 code units and is split again word by word, and
  the first chunk gets a full stop.
\<close>

theorem example_not_three_sentences:
  "splitTextIntoSlides
     (js ''Short one. This is sentence two, which is also fairly short. Sentence three is here too.'')
     \<lparr>maxCharactersOpt = Some (Value (Num 40)), respectSentenceBoundariesOpt = None,
      minWordsPerSlideOpt = Some (Value (Num 3))\<rparr>
   \<noteq> [js ''Short one.'', js ''This is sentence two, which is also fairly short.'',
      js ''Sentence three is here too.'']"
  by code_simp

text \<open>
  C1, amended: on the example text with \<open>maxCharacters = 40\<close> and
  \<open>minWordsPerSlide = 3\<close> the program returns the slides
  \<open>Short one. This is sentence two, which.\<close>, \<open>is also fairly short.\<close> and
  \<open>Sentence three is here too.\<close>, in that order.
\<close>

theorem example_slides:
  "splitTextIntoSlides
     (js ''Short one. This is sentence two, which is also fairly short. Sentence three is here too.'')
     \<lparr>maxCharactersOpt = Some (Value (Num 40)), respectSentenceBoundariesOpt = None,
      minWordsPerSlideOpt = Some (Value (Num 3))\<rparr>
   = [js ''Short one. This is sentence two, which.'', js ''is also fairly short.'',
      js ''Sentence three is here too.'']"
  by code_simp

subsection \<open>Empty input\<close>

text \<open>
  C7: for every input that is empty or consists of white space only, and for every
  options value, \<open>splitTextIntoSlides\<close> returns the empty list.
\<close>

theorem splitTextIntoSlides_blank:
  "(\<forall>c \<in> set input. isWhiteSpace c) \<Longrightarrow> splitTextIntoSlides input options = []"
proof -
  assume "\<forall>c \<in> set input. isWhiteSpace c"
  then have "trim input = []"
    by (auto simp: trim_def dest: set_dropWhileD)
  then show ?thesis
    by (simp add: splitTextIntoSlides_def)
qed

text \<open>The two inputs the specification names: the empty string and three spaces.\<close>

theorem splitTextIntoSlides_blank_witness:
  "(\<forall>options. splitTextIntoSlides (js []) options = []) \<and>
   (\<forall>options. splitTextIntoSlides (js ''   '') options = [])"
proof -
  have "\<forall>c \<in> set (js []). isWhiteSpace c"
    by (simp add: js_def)
  moreover have "\<forall>c \<in> set (js ''   ''). isWhiteSpace c"
    by (simp add: js_def isWhiteSpace_def)
  ultimately show ?thesis
    using splitTextIntoSlides_blank [of "js []"] splitTextIntoSlides_blank [of "js ''   ''"]
    by blast
qed

subsection \<open>validateTextForSlides\<close>

text \<open>
  C6: the errors of \<open>validateTextForSlides\<close> are non-empty exactly when the text is
  empty after trimming, or has fewer than 10 code units, or has fewer than 3 words; the
  warnings are non-empty exactly when the text has more than 10000 code units or more
  than 2000 words; and \<open>isValid\<close> holds exactly when there is no error. The words are
  the maximal runs of code units that are not white space, which is what
  \<open>getWordCount\<close> counts.
\<close>

theorem validateTextForSlides_spec:
  "(errors (validateTextForSlides input) \<noteq> [] \<longleftrightarrow>
      trim input = [] \<or> length input < 10 \<or> length (wordsOf input) < 3) \<and>
   (warnings (validateTextForSlides input) \<noteq> [] \<longleftrightarrow>
      length input > 10000 \<or> length (wordsOf input) > 2000) \<and>
   (isValid (validateTextForSlides input) \<longleftrightarrow> errors (validateTextForSlides input) = [])"
  by (simp add: validateTextForSlides_def Let_def getWordCount_words)

subsection \<open>validateSlideOptions\<close>

text \<open>
  C5 fails at a width of 0: the guard \<open>options.width &&\<close> takes the number 0 for an
  absent field, so the range test is skipped and the options are reported valid,
  against the message of the program itself (a width is between 100 and 4000).
\<close>

theorem validateSlideOptions_zero_width:
  "validateSlideOptions
     \<lparr>widthOpt = Some 0, heightOpt = None, qualityOpt = None, formatOpt = None,
      backgroundColorOpt = None\<rparr>
   = \<lparr>slideIsValid = True, slideErrors = []\<rparr>"
  by (simp add: validateSlideOptions_def)

subsection \<open>analyzeContent: the labeled path\<close>

text \<open>
  C4: whenever the labeled extraction yields a non-empty title, body or visual,
  \<open>analyzeContent\<close> returns the labeled extraction itself, whatever the heuristics
  would give; and on the text of the specification, with the labels \<open>Title\<close>, \<open>Body\<close>
  and \<open>Visual\<close> on three lines, it returns the title \<open>Hello\<close>, the body \<open>World\<close>, the
  visual \<open>none\<close> and no snippet.
\<close>

theorem analyzeContent_labeled:
  \<open>(hasAnyLabel (extractLabeled input) \<longrightarrow> analyzeContent lc input = extractLabeled input) \<and>
   analyzeContent lc (js ''Title: "Hello"\<newline>Body: "World"\<newline>Visual: "none"'') =
     \<lparr>title = Some (js ''Hello''), body = Some (js ''World''), visual = Some (js ''none''),
      visualSnippet = None, tags = None\<rparr>\<close>
proof
  show "hasAnyLabel (extractLabeled input) \<longrightarrow> analyzeContent lc input = extractLabeled input"
    by (simp add: analyzeContent_def)
  show \<open>analyzeContent lc (js ''Title: "Hello"\<newline>Body: "World"\<newline>Visual: "none"'') =
     \<lparr>title = Some (js ''Hello''), body = Some (js ''World''), visual = Some (js ''none''),
      visualSnippet = None, tags = None\<rparr>\<close>
    by code_simp
qed

text \<open>
  A text where the two phases disagree: the heuristics would take the first line,
  \<open>Intro\<close>, for the title; the labeled title \<open>Hello\<close> wins.
\<close>

theorem analyzeContent_labeled_witness:
  \<open>title (heuristics lowerAsciiString (js ''Intro:\<newline>Title: "Hello" #tag'')) = Some (js ''Intro'') \<and>
   hasAnyLabel (extractLabeled (js ''Intro:\<newline>Title: "Hello" #tag'')) \<and>
   analyzeContent lowerAsciiString (js ''Intro:\<newline>Title: "Hello" #tag'') =
     extractLabeled (js ''Intro:\<newline>Title: "Hello" #tag'') \<and>
   title (analyzeContent lowerAsciiString (js ''Intro:\<newline>Title: "Hello" #tag'')) =
     Some (js ''Hello'')\<close>
proof -
  have h: \<open>hasAnyLabel (extractLabeled (js ''Intro:\<newline>Title: "Hello" #tag''))\<close>
    by code_simp
  have t: \<open>title (heuristics lowerAsciiString (js ''Intro:\<newline>Title: "Hello" #tag'')) =
      Some (js ''Intro'')\<close>
    by code_simp
  have e: \<open>title (extractLabeled (js ''Intro:\<newline>Title: "Hello" #tag'')) = Some (js ''Hello'')\<close>
    by code_simp
  from analyzeContent_labeled [of \<open>js ''Intro:\<newline>Title: "Hello" #tag''\<close> lowerAsciiString] h
  have \<open>analyzeContent lowerAsciiString (js ''Intro:\<newline>Title: "Hello" #tag'') =
      extractLabeled (js ''Intro:\<newline>Title: "Hello" #tag'')\<close>
    by blast
  with h t e show ?thesis
    by simp
qed



end
